theory Spec2Isabelle
  imports Complex_Main "HOL-Library.Multiset"
begin

section \<open>Numbers, points and the p5 helpers the sketch calls\<close>

text \<open>
  The sketch exists in two revisions: \<^verbatim>\<open>src/components/GenerativeTree.tsx\<close> and
  \<^verbatim>\<open>src/unnamed/part_000\<close>. Definitions without a suffix embed
  \<^verbatim>\<open>GenerativeTree.tsx\<close>; definitions ending in \<open>_p0\<close> embed \<^verbatim>\<open>part_000\<close>.

  JavaScript numbers are modelled as real numbers. The one place where the source
  computes with NaN on ordinary inputs (\<^verbatim>\<open>s/steps\<close> with \<^verbatim>\<open>steps = 0\<close>) is
  modelled explicitly. Any other division by zero (\<^verbatim>\<open>p.map\<close> over an empty range, a
  canvas without area) gives Infinity or NaN in the source and 0 here; NaN and infinite
  inputs are not modelled. The pseudo-random generator of p5 is a stream \<open>rnd\<close> of unit
  draws together with a counter \<open>seed\<close> that every call of \<^verbatim>\<open>p.random\<close> advances.
  The helpers below follow the documented behaviour of the p5 functions of the same names.
\<close>

type_synonym Point = "real \<times> real"

datatype ParticleType = TRUNK | BRANCH | TWIG | FLOWER | COLLECTED

record env =
  width :: real
  height :: real
  frameCount :: nat
  millis :: real
  rnd :: "nat \<Rightarrow> real"

definition p_random :: "env \<Rightarrow> nat \<Rightarrow> real \<times> nat" where
  "p_random e s = (rnd e s, Suc s)"

definition p_random_max :: "env \<Rightarrow> real \<Rightarrow> nat \<Rightarrow> real \<times> nat" where
  "p_random_max e mx s = (rnd e s * mx, Suc s)"

definition p_random_range :: "env \<Rightarrow> real \<Rightarrow> real \<Rightarrow> nat \<Rightarrow> real \<times> nat" where
  "p_random_range e mn mx s = (rnd e s * (mx - mn) + mn, Suc s)"

definition p_random_choice :: "env \<Rightarrow> 'a list \<Rightarrow> nat \<Rightarrow> 'a \<times> nat" where
  "p_random_choice e xs s = (xs ! nat \<lfloor>rnd e s * real (length xs)\<rfloor>, Suc s)"

definition p_lerp :: "real \<Rightarrow> real \<Rightarrow> real \<Rightarrow> real" where
  "p_lerp start stop amt = amt * (stop - start) + start"

definition p_constrain :: "real \<Rightarrow> real \<Rightarrow> real \<Rightarrow> real" where
  "p_constrain n low high = max (min n high) low"

definition p_map :: "real \<Rightarrow> real \<Rightarrow> real \<Rightarrow> real \<Rightarrow> real \<Rightarrow> bool \<Rightarrow> real" where
  "p_map n start1 stop1 start2 stop2 withinBounds =
     (let newval = (n - start1) / (stop1 - start1) * (stop2 - start2) + start2
      in if \<not> withinBounds then newval
         else if start2 < stop2 then p_constrain newval start2 stop2
         else p_constrain newval stop2 start2)"

definition p_dist :: "real \<Rightarrow> real \<Rightarrow> real \<Rightarrow> real \<Rightarrow> real" where
  "p_dist x1 y1 x2 y2 = sqrt ((x2 - x1)\<^sup>2 + (y2 - y1)\<^sup>2)"

definition p_radians :: "real \<Rightarrow> real" where
  "p_radians deg = deg * pi / 180"

definition p_atan2 :: "real \<Rightarrow> real \<Rightarrow> real" where
  "p_atan2 dy dx =
     (if 0 < dx then arctan (dy / dx)
      else if dx < 0 \<and> 0 \<le> dy then arctan (dy / dx) + pi
      else if dx < 0 then arctan (dy / dx) - pi
      else if 0 < dy then pi / 2
      else if dy < 0 then - pi / 2
      else 0)"

definition splice :: "'a list \<Rightarrow> nat \<Rightarrow> 'a list" where
  "splice xs i = take i xs @ drop (Suc i) xs"

section \<open>Particles\<close>

record Particle_p0 =
  pos :: Point
  col :: string
  siz :: real
  asiz :: real
  dir :: real
  spd :: real
  life :: real
  lifespan :: real
  tag :: ParticleType
  rotationOffset :: real

record Particle = Particle_p0 +
  stamenCol :: string
  currentRotation :: real
  targetScale :: real
  currentScale :: real
  lastHoveredTime :: real
  isBloomed :: bool
  interactionRotation :: real
  rsiz :: real

text \<open>
  What the sketch paints. A drawing surface (the main canvas \<^verbatim>\<open>p\<close>, the off-screen
  \<^verbatim>\<open>treeLayer\<close>) is the list of the shapes painted on it since it was last cleared, oldest
  first: \<open>Circle\<close> is \<^verbatim>\<open>circle(x, y, d)\<close> in a fill colour; \<open>Blossom\<close> is the flower of
  \<^verbatim>\<open>GenerativeTree.tsx\<close> (position, rotation, scale, petal size, petal colour, stamen
  colour); \<open>Petals\<close> is the flower of \<^verbatim>\<open>part_000\<close> (position, rotation, petal size,
  colour); \<open>Wand\<close> is what \<^verbatim>\<open>drawWand\<close> paints at a position.
\<close>

datatype shape =
    Circle Point real string
  | Blossom Point real real real string string
  | Petals Point real real string
  | Wand Point

record 'p sketch_state =
  parts :: "'p list"
  treePositions :: "Point list"
  lastVideoTime :: real
  seed :: nat
  canvas :: "shape list"

record sketch_p0 = "Particle_p0 sketch_state" +
  prevHandPos :: "Point option"

record sketch = "Particle sketch_state" +
  prevIndexPos :: "Point option"
  fingerStillFrames :: nat
  wandPos :: "Point option"
  treeLayer :: "shape list"

definition PALETTE_trunk :: string where "PALETTE_trunk = ''#808080''"

definition PALETTE_flowers :: "string list" where
  "PALETTE_flowers = [''#FFB7B2'', ''#FFDAC1'', ''#E2F0CB'', ''#B5EAD7'', ''#C7CEEA'']"

definition PALETTE_stamens :: "string list" where
  "PALETTE_stamens = [''#FFF4BD'', ''#FF9AA2'', ''#FFB347'', ''#FFFFB5'']"

definition PALETTE_trunk_p0 :: string where "PALETTE_trunk_p0 = ''#8E8D8A''"

definition PALETTE_flowers_p0 :: "string list" where
  "PALETTE_flowers_p0 = [''#FFB7B2'', ''#FFDAC1'', ''#E2F0CB'', ''#B5EAD7'', ''#C7CEEA'',
     ''#A2E1DB'', ''#E0BBE4'']"

text \<open>
  The constructor of \<^verbatim>\<open>GenerativeTree.tsx\<close> (lines 125-157). It draws three random numbers,
  in this order: the stamen colour, the speed (drawn for every tag but \<open>TRUNK\<close>, and
  overwritten by 0 for a flower) and the rotation offset.
\<close>

definition new_Particle ::
  "env \<Rightarrow> real \<Rightarrow> real \<Rightarrow> string \<Rightarrow> real \<Rightarrow> real \<Rightarrow> real \<Rightarrow> real \<Rightarrow> ParticleType \<Rightarrow> nat
     \<Rightarrow> Particle \<times> nat" where
  "new_Particle e sx sy sc ss sd sl ls tg s0 =
     (let (stamen, s1) = p_random_choice e PALETTE_stamens s0;
          siz0 = (if tg = FLOWER then 0 else 1);
          (spd0, s2) = (if tg = TRUNK then (2, s1) else p_random_range e 0.25 2 s1);
          spd1 = (if tg = FLOWER then 0 else spd0);
          (rot, s3) = p_random_max e (2 * pi) s2
      in (\<lparr> pos = (sx, sy), col = sc, siz = siz0, asiz = ss, dir = sd, spd = spd1,
             life = sl, lifespan = ls, tag = tg, rotationOffset = rot,
             stamenCol = stamen, currentRotation = rot, targetScale = 1, currentScale = 1,
             lastHoveredTime = - 1000, isBloomed = False, interactionRotation = 0,
             rsiz = ss * siz0 \<rparr>, s3))"

text \<open>The constructor of \<^verbatim>\<open>part_000\<close> (lines 83-102): rotation offset first, then the speed.\<close>

definition new_Particle_p0 ::
  "env \<Rightarrow> real \<Rightarrow> real \<Rightarrow> string \<Rightarrow> real \<Rightarrow> real \<Rightarrow> real \<Rightarrow> real \<Rightarrow> ParticleType \<Rightarrow> nat
     \<Rightarrow> Particle_p0 \<times> nat" where
  "new_Particle_p0 e sx sy sc ss sd sl ls tg s0 =
     (let (rot, s1) = p_random_max e (2 * pi) s0;
          siz0 = (if tg = FLOWER then 0 else 1);
          (spd0, s2) = (if tg = FLOWER then (0, s1)
                        else if tg = TRUNK then (2, s1)
                        else p_random_range e 0.25 2 s1)
      in (\<lparr> pos = (sx, sy), col = sc, siz = siz0, asiz = ss, dir = sd, spd = spd0,
             life = sl, lifespan = ls, tag = tg, rotationOffset = rot \<rparr>, s2))"

section \<open>\<^verbatim>\<open>Particle.update\<close> in \<^verbatim>\<open>GenerativeTree.tsx\<close>\<close>

text \<open>
  The two normalising loops of lines 180-181:
  \<^verbatim>\<open>while (diff < -p.PI) diff += p.TWO_PI; while (diff > p.PI) diff -= p.TWO_PI;\<close>
\<close>

function wrap_up :: "real \<Rightarrow> real" where
  "wrap_up d = (if d < - pi then wrap_up (d + 2 * pi) else d)"
  by pat_completeness auto
termination
proof (relation "measure (\<lambda>d. nat \<lceil>(- pi - d) / (2 * pi)\<rceil>)")
  show "wf (measure (\<lambda>d. nat \<lceil>(- pi - d) / (2 * pi)\<rceil>))" by simp
next
  fix d :: real
  assume lt: "d < - pi"
  have eq: "(- pi - (d + 2 * pi)) / (2 * pi) = (- pi - d) / (2 * pi) - 1"
    by (simp add: field_simps)
  have "0 < (- pi - d) / (2 * pi)" using lt by simp
  then have "0 < \<lceil>(- pi - d) / (2 * pi)\<rceil>" by linarith
  then show "(d + 2 * pi, d) \<in> measure (\<lambda>d. nat \<lceil>(- pi - d) / (2 * pi)\<rceil>)"
    unfolding in_measure eq by linarith
qed

function wrap_down :: "real \<Rightarrow> real" where
  "wrap_down d = (if d > pi then wrap_down (d - 2 * pi) else d)"
  by pat_completeness auto
termination
proof (relation "measure (\<lambda>d. nat \<lceil>(d - pi) / (2 * pi)\<rceil>)")
  show "wf (measure (\<lambda>d. nat \<lceil>(d - pi) / (2 * pi)\<rceil>))" by simp
next
  fix d :: real
  assume gt: "pi < d"
  have eq: "(d - 2 * pi - pi) / (2 * pi) = (d - pi) / (2 * pi) - 1"
    by (simp add: field_simps)
  have "0 < (d - pi) / (2 * pi)" using gt by simp
  then have "0 < \<lceil>(d - pi) / (2 * pi)\<rceil>" by linarith
  then show "(d - 2 * pi, d) \<in> measure (\<lambda>d. nat \<lceil>(d - pi) / (2 * pi)\<rceil>)"
    unfolding in_measure eq by linarith
qed

declare wrap_up.simps [simp del] wrap_down.simps [simp del]

text \<open>The flower branch of \<^verbatim>\<open>update\<close> (lines 163-199), after \<^verbatim>\<open>this.life++\<close>.\<close>

definition update_flower :: "env \<Rightarrow> Particle \<Rightarrow> Particle" where
  "update_flower e this0 =
     (let this1 = (if siz this0 < 1
                   then (let t = this0\<lparr>siz := siz this0 + 0.1\<rparr>
                         in if siz t > 1 then t\<lparr>siz := 1\<rparr> else t)
                   else this0);
          timeSinceHover = millis e - lastHoveredTime this1;
          this2 = (if timeSinceHover < 200
                   then (let t = this1\<lparr>targetScale := 2.5, isBloomed := True\<rparr>;
                             diff = wrap_down (wrap_up (interactionRotation t - currentRotation t))
                         in t\<lparr>currentRotation := currentRotation t + diff * 0.1\<rparr>)
                   else if isBloomed this1 then this1\<lparr>targetScale := 2.5\<rparr>
                   else this1\<lparr>targetScale := 1,
                          currentRotation :=
                            p_lerp (currentRotation this1) (rotationOffset this1) 0.05\<rparr>)
      in this2\<lparr>currentScale := p_lerp (currentScale this2) (targetScale this2) 0.1\<rparr>)"

text \<open>\<^verbatim>\<open>randNeg(n)\<close> with an argument (line 98).\<close>

definition randNeg :: "env \<Rightarrow> real \<Rightarrow> nat \<Rightarrow> real \<times> nat" where
  "randNeg e n s = (let (u, s1) = p_random e s in (if u < 0.5 then n else - n, s1))"

text \<open>Spawning rule 1, trunk to branch (lines 229-239).\<close>

definition spawn_branch :: "env \<Rightarrow> Particle \<Rightarrow> sketch \<Rightarrow> sketch" where
  "spawn_branch e this st =
     (let (u, s1) = p_random e (seed st)
      in if u < 0.03 \<and> tag this = TRUNK \<and> siz this < 0.55
         then (let (a, s2) = p_random_range e 15 30 s1;
                   (d, s3) = randNeg e a s2;
                   (child, s4) = new_Particle e (fst (pos this)) (snd (pos this)) (col this)
                                   (rsiz this) (dir this + d) (life this) (lifespan this) BRANCH s3
               in st\<lparr>parts := parts st @ [child], seed := s4\<rparr>)
         else st\<lparr>seed := s1\<rparr>)"

text \<open>Spawning rule 2, branch forking (lines 242-252).\<close>

definition fork_branch :: "env \<Rightarrow> Particle \<Rightarrow> sketch \<Rightarrow> sketch" where
  "fork_branch e this st =
     (let (u, s1) = p_random e (seed st)
      in if u < 0.01 \<and> tag this = BRANCH
         then (let (child, s2) = new_Particle e (fst (pos this)) (snd (pos this)) (col this)
                                   (rsiz this) (dir this) (life this) (lifespan this) BRANCH s1
               in st\<lparr>parts := parts st @ [child], seed := s2\<rparr>)
         else st\<lparr>seed := s1\<rparr>)"

text \<open>
  Spawning rule 3, twigs (lines 255-270). \<^verbatim>\<open>this.siz ** 0.5\<close> is the square root (the size
  is never negative).
\<close>

definition spawn_twig :: "env \<Rightarrow> Particle \<Rightarrow> sketch \<Rightarrow> sketch" where
  "spawn_twig e this st =
     (let twigChance = (if tag this = BRANCH \<and> siz this < 0.25
                        then p_map (siz this) 0 0.25 0.5 0.3 False else 0);
          (u, s1) = p_random e (seed st)
      in if u < twigChance
         then (let newSize = sqrt (siz this) * rsiz this;
                   (a, s2) = p_random_range e 5 20 s1;
                   (d, s3) = randNeg e a s2;
                   (ls, s4) = p_random_max e (lifespan this * 0.05) s3;
                   (child, s5) = new_Particle e (fst (pos this)) (snd (pos this)) (col this)
                                   newSize (dir this + d) 0 ls TWIG s4
               in st\<lparr>parts := parts st @ [child], seed := s5\<rparr>)
         else st\<lparr>seed := s1\<rparr>)"

text \<open>
  The movement, direction jitter and tapering of a tree particle (lines 202-215): two
  random draws, the jitter and the taper.
\<close>

definition grow :: "env \<Rightarrow> Particle \<Rightarrow> nat \<Rightarrow> Particle \<times> nat" where
  "grow e this1 s0 =
     (let this2 = this1\<lparr>rsiz := asiz this1 * siz this1\<rparr>;
          rad = p_radians (dir this2);
          this3 = this2\<lparr>pos := (fst (pos this2) + cos rad * spd this2,
                                 snd (pos this2) + sin rad * spd this2)\<rparr>;
          jitterMult = (if tag this3 = TRUNK \<and> siz this3 > 0.9 then 1
                        else p_map (life this3) 0 (lifespan this3) 1 5 False);
          (j, s1) = p_random_range e (- 1) 1 s0;
          this4 = this3\<lparr>dir := dir this3 + j * jitterMult\<rparr>;
          (r, s2) = p_random_max e 0.015 s1
      in (this4\<lparr>siz := p_lerp (siz this4) 0 r\<rparr>, s2))"

text \<open>
  \<^verbatim>\<open>update\<close> (lines 159-273). It mutates the particle, pushes onto \<^verbatim>\<open>parts\<close> and
  \<^verbatim>\<open>treePositions\<close> and returns whether the particle is dead; the model returns the
  flag, the mutated particle and the mutated sketch state.
\<close>

definition update :: "env \<Rightarrow> Particle \<Rightarrow> sketch \<Rightarrow> bool \<times> Particle \<times> sketch" where
  "update e this0 st0 =
     (let this1 = this0\<lparr>life := life this0 + 1\<rparr>
      in if tag this1 = FLOWER then (False, update_flower e this1, st0)
         else
          (let (this5, s2) = grow e this1 (seed st0);
               st1 = st0\<lparr>seed := s2\<rparr>
           in if rsiz this5 < 0.1 \<or> spd this5 > rsiz this5 then (True, this5, st1)
              else
               (let st2 = (if frameCount e mod 5 = 0 \<and> snd (pos this5) < height e * 0.7
                           then st1\<lparr>treePositions := treePositions st1 @ [pos this5]\<rparr>
                           else st1);
                    st3 = spawn_branch e this5 st2;
                    st4 = fork_branch e this5 st3;
                    st5 = spawn_twig e this5 st4
                in (False, this5, st5))))"

section \<open>\<^verbatim>\<open>Particle.update\<close> in \<^verbatim>\<open>part_000\<close>\<close>

text \<open>Spawning rule 1 of \<^verbatim>\<open>part_000\<close>, trunk to branch (lines 149-157).\<close>

definition spawn_branch_p0 :: "env \<Rightarrow> Particle_p0 \<Rightarrow> real \<Rightarrow> sketch_p0 \<Rightarrow> sketch_p0" where
  "spawn_branch_p0 e this currentSize st =
     (let (u, s1) = p_random e (seed st)
      in if u < 0.03 \<and> tag this = TRUNK \<and> siz this < 0.6
         then (let (v, s2) = p_random e s1;
                   (a, s3) = p_random_range e 20 40 s2;
                   (child, s4) = new_Particle_p0 e (fst (pos this)) (snd (pos this)) (col this)
                                   (currentSize * 0.9)
                                   (dir this + (if v < 0.5 then 1 else - 1) * a)
                                   (life this) (lifespan this) BRANCH s3
               in st\<lparr>parts := parts st @ [child], seed := s4\<rparr>)
         else st\<lparr>seed := s1\<rparr>)"

text \<open>Spawning rule 2 of \<^verbatim>\<open>part_000\<close>, branch to branch (lines 160-168).\<close>

definition fork_branch_p0 :: "env \<Rightarrow> Particle_p0 \<Rightarrow> real \<Rightarrow> sketch_p0 \<Rightarrow> sketch_p0" where
  "fork_branch_p0 e this currentSize st =
     (let (u, s1) = p_random e (seed st)
      in if u < 0.01 \<and> tag this = BRANCH \<and> siz this > 0.5
         then (let (a, s2) = p_random_range e (- 10) 10 s1;
                   (child, s3) = new_Particle_p0 e (fst (pos this)) (snd (pos this)) (col this)
                                   currentSize (dir this + a) (life this) (lifespan this) BRANCH s2
               in st\<lparr>parts := parts st @ [child], seed := s3\<rparr>)
         else st\<lparr>seed := s1\<rparr>)"

text \<open>The curl of lines 135-137: one draw for the test, a second one only when it passes.\<close>

definition curl_p0 :: "env \<Rightarrow> Particle_p0 \<Rightarrow> nat \<Rightarrow> Particle_p0 \<times> nat" where
  "curl_p0 e this s =
     (let (u, s1) = p_random e s
      in if u < 0.005 \<and> tag this \<noteq> TRUNK
         then (let (v, s2) = p_random e s1
               in (this\<lparr>dir := dir this + (if v < 0.5 then 1 else - 1) * 72 * 0.5\<rparr>, s2))
         else (this, s1))"

text \<open>
  The movement, position record, wander, curl and tapering of a tree particle in
  \<^verbatim>\<open>part_000\<close> (lines 120-139).
\<close>

definition grow_p0 :: "env \<Rightarrow> Particle_p0 \<Rightarrow> sketch_p0 \<Rightarrow> Particle_p0 \<times> sketch_p0" where
  "grow_p0 e this1 st0 =
     (let radiansDir = p_radians (dir this1);
          this2 = this1\<lparr>pos := (fst (pos this1) + cos radiansDir * spd this1,
                                 snd (pos this1) + sin radiansDir * spd this1)\<rparr>;
          st1 = (if frameCount e mod 4 = 0
                 then st0\<lparr>treePositions := treePositions st0 @ [pos this2]\<rparr>
                 else st0);
          wander = (if tag this2 = TRUNK \<and> siz this2 > 0.9 then 1
                    else p_map (life this2) 0 (lifespan this2) 1 5 False);
          (j, s1) = p_random_range e (- 1) 1 (seed st1);
          this3 = this2\<lparr>dir := dir this2 + j * wander\<rparr>;
          (this4, s2) = curl_p0 e this3 s1;
          (r, s3) = p_random_max e 0.015 s2
      in (this4\<lparr>siz := p_lerp (siz this4) 0 r\<rparr>, st1\<lparr>seed := s3\<rparr>))"

text \<open>\<^verbatim>\<open>update\<close> of \<^verbatim>\<open>part_000\<close> (lines 104-171).\<close>

definition update_p0 :: "env \<Rightarrow> Particle_p0 \<Rightarrow> sketch_p0 \<Rightarrow> bool \<times> Particle_p0 \<times> sketch_p0" where
  "update_p0 e this0 st0 =
     (let this1 = this0\<lparr>life := life this0 + 1\<rparr>
      in if tag this1 = FLOWER
         then (let this2 = this1\<lparr>siz := siz this1 + 0.1\<rparr>
               in if siz this2 \<ge> 1 then (True, this2\<lparr>siz := 1\<rparr>, st0)
                  else (False, this2, st0))
         else
          (let (this5, st2) = grow_p0 e this1 st0;
               currentSize = asiz this5 * siz this5
           in if currentSize < 0.5 \<or> spd this5 > currentSize then (True, this5, st2)
              else
               (let st3 = spawn_branch_p0 e this5 currentSize st2;
                    st4 = fork_branch_p0 e this5 currentSize st3
                in (False, this5, st4))))"

section \<open>Setting up and spawning flowers\<close>

text \<open>\<^verbatim>\<open>startTree\<close> of \<^verbatim>\<open>GenerativeTree.tsx\<close> (lines 336-353): two trunks.\<close>

definition startTree :: "env \<Rightarrow> sketch \<Rightarrow> sketch" where
  "startTree e st =
     (let startX = width e / 2;
          (d0, s1) = p_random_range e (- 2) 2 (seed st);
          (t0, s2) = new_Particle e (startX + d0) (height e * 0.95) PALETTE_trunk 100 260 0 500
                       TRUNK s1;
          (d1, s3) = p_random_range e (- 2) 2 s2;
          (t1, s4) = new_Particle e (startX + d1) (height e * 0.95) PALETTE_trunk 100 280 0 500
                       TRUNK s3
      in st\<lparr>parts := parts st @ [t0, t1], seed := s4\<rparr>)"

text \<open>\<^verbatim>\<open>startTree\<close> of \<^verbatim>\<open>part_000\<close> (lines 216-221).\<close>

definition startTree_p0 :: "env \<Rightarrow> sketch_p0 \<Rightarrow> sketch_p0" where
  "startTree_p0 e st =
     (let startX = width e / 2;
          (t0, s1) = new_Particle_p0 e (startX - 20) (height e + 20) PALETTE_trunk_p0 50 270 0 500
                       TRUNK (seed st);
          (t1, s2) = new_Particle_p0 e (startX + 20) (height e + 20) PALETTE_trunk_p0 45 270 0 500
                       TRUNK s1
      in st\<lparr>parts := parts st @ [t0, t1], seed := s2\<rparr>)"

text \<open>
  \<^verbatim>\<open>spawnFlower\<close> of \<^verbatim>\<open>GenerativeTree.tsx\<close> (lines 355-360). Its only caller passes all
  three arguments.
\<close>

definition spawnFlower :: "env \<Rightarrow> real \<Rightarrow> real \<Rightarrow> real \<Rightarrow> sketch \<Rightarrow> sketch" where
  "spawnFlower e x y handScreenSizeRatio st =
     (let (flowerColor, s1) = p_random_choice e PALETTE_flowers (seed st);
          size = p_map handScreenSizeRatio 0.05 0.3 10 35 True;
          (flower, s2) = new_Particle e x y flowerColor size 0 0 0 FLOWER s1
      in st\<lparr>parts := parts st @ [flower], seed := s2\<rparr>)"

text \<open>\<^verbatim>\<open>spawnFlower\<close> of \<^verbatim>\<open>part_000\<close> (lines 223-228).\<close>

definition spawnFlower_p0 :: "env \<Rightarrow> real \<Rightarrow> real \<Rightarrow> sketch_p0 \<Rightarrow> sketch_p0" where
  "spawnFlower_p0 e x y st =
     (let (flowerColor, s1) = p_random_choice e PALETTE_flowers_p0 (seed st);
          (size, s2) = p_random_range e 15 25 s1;
          (flower, s3) = new_Particle_p0 e x y flowerColor size 0 0 0 FLOWER s2
      in st\<lparr>parts := parts st @ [flower], seed := s3\<rparr>)"

section \<open>\<^verbatim>\<open>Particle.display\<close>\<close>

text \<open>
  \<^verbatim>\<open>display(target)\<close> of \<^verbatim>\<open>GenerativeTree.tsx\<close> (lines 275-308) paints on the surface it
  is given. A flower is painted as it is; a tree particle draws one random number and is
  painted as a circle of diameter \<open>rsiz\<close> only when the draw is below 0.3. The function
  returns the surface and the advanced generator.
\<close>

definition display :: "env \<Rightarrow> Particle \<Rightarrow> shape list \<Rightarrow> nat \<Rightarrow> shape list \<times> nat" where
  "display e this target s =
     (if tag this = FLOWER
      then (let renderScale = currentScale this;
                petalSize = asiz this * siz this
            in (target @ [Blossom (pos this) (currentRotation this) renderScale petalSize
                            (col this) (stamenCol this)], s))
      else (let (u, s1) = p_random e s
            in if u < 0.3 then (target @ [Circle (pos this) (rsiz this) (col this)], s1)
               else (target, s1)))"

text \<open>
  \<^verbatim>\<open>display()\<close> of \<^verbatim>\<open>part_000\<close> (lines 173-199) paints on the main canvas, which is
  never cleared: a flower as its petals, a tree particle as a circle of diameter
  \<open>asiz * siz\<close> on the even frames.
\<close>

definition display_p0 :: "env \<Rightarrow> Particle_p0 \<Rightarrow> shape list \<Rightarrow> shape list" where
  "display_p0 e this target =
     (if tag this = FLOWER
      then (let petalSize = asiz this * siz this
            in target @ [Petals (pos this) (rotationOffset this) petalSize (col this)])
      else if frameCount e mod 2 = 0
      then target @ [Circle (pos this) (asiz this * siz this) (col this)]
      else target)"

text \<open>\<^verbatim>\<open>drawWand(pos)\<close> (lines 379-403) paints the wand on the main canvas.\<close>

definition drawWand :: "Point \<Rightarrow> shape list \<Rightarrow> shape list" where
  "drawWand ps target = target @ [Wand ps]"

section \<open>The particle loop of \<^verbatim>\<open>p.draw\<close>\<close>

text \<open>
  One iteration of \<^verbatim>\<open>for (let i = parts.length - 1; i >= 0; i--)\<close> in
  \<^verbatim>\<open>GenerativeTree.tsx\<close> (lines 432-451). The particle at index \<open>i\<close> is updated in place.
  When \<^verbatim>\<open>update\<close> returned true it is spliced out. Otherwise a flower is pushed onto one
  of the two lists \<^verbatim>\<open>backgroundFlowers\<close> and \<^verbatim>\<open>foregroundFlowers\<close>, which are local to the
  frame, and a tree particle is displayed on the persistent \<^verbatim>\<open>treeLayer\<close>. Children pushed
  by \<^verbatim>\<open>update\<close> land behind the end of \<^verbatim>\<open>parts\<close>, so every index below \<open>i\<close> still names
  the same particle. The loop state is the sketch state together with the two local lists.
\<close>

fun draw_step ::
  "env \<Rightarrow> nat \<Rightarrow> sketch \<times> Particle list \<times> Particle list
     \<Rightarrow> sketch \<times> Particle list \<times> Particle list" where
  "draw_step e i (st, backgroundFlowers, foregroundFlowers) =
     (let part = parts st ! i;
          (isDead, part', st1) = update e part st
      in if \<not> isDead
         then (let st2 = st1\<lparr>parts := (parts st1)[i := part']\<rparr>
               in if tag part' = FLOWER
                  then (if currentScale part' > 1.05
                        then (st2, backgroundFlowers, foregroundFlowers @ [part'])
                        else (st2, backgroundFlowers @ [part'], foregroundFlowers))
                  else (let (layer, s) = display e part' (treeLayer st2) (seed st2)
                        in (st2\<lparr>treeLayer := layer, seed := s\<rparr>,
                            backgroundFlowers, foregroundFlowers)))
         else (st1\<lparr>parts := splice (parts st1) i\<rparr>, backgroundFlowers, foregroundFlowers))"

declare draw_step.simps [simp del]

fun draw_parts ::
  "env \<Rightarrow> nat \<Rightarrow> sketch \<times> Particle list \<times> Particle list
     \<Rightarrow> sketch \<times> Particle list \<times> Particle list" where
  "draw_parts e 0 ls = ls"
| "draw_parts e (Suc i) ls = draw_parts e i (draw_step e i ls)"

text \<open>
  The two loops of lines 454-459, \<^verbatim>\<open>for (const part of ...) part.display(p)\<close>, on the main
  canvas.
\<close>

fun display_all :: "env \<Rightarrow> Particle list \<Rightarrow> sketch \<Rightarrow> sketch" where
  "display_all e [] st = st"
| "display_all e (part # rest) st =
     display_all e rest
       (let (cv, s) = display e part (canvas st) (seed st) in st\<lparr>canvas := cv, seed := s\<rparr>)"

text \<open>
  One iteration of the loop of \<^verbatim>\<open>part_000\<close> (lines 249-262): a particle that lives is
  displayed on the main canvas, a flower that just died is displayed once more before it
  is spliced out.
\<close>

definition draw_step_p0 :: "env \<Rightarrow> nat \<Rightarrow> sketch_p0 \<Rightarrow> sketch_p0" where
  "draw_step_p0 e i st =
     (let part = parts st ! i;
          (isDead, part', st1) = update_p0 e part st
      in if \<not> isDead
         then st1\<lparr>parts := (parts st1)[i := part'],
                  canvas := display_p0 e part' (canvas st1)\<rparr>
         else (let st2 = (if tag part' = FLOWER
                          then st1\<lparr>canvas := display_p0 e part' (canvas st1)\<rparr>
                          else st1)
               in st2\<lparr>parts := splice (parts st2) i\<rparr>))"

fun draw_parts_p0 :: "env \<Rightarrow> nat \<Rightarrow> sketch_p0 \<Rightarrow> sketch_p0" where
  "draw_parts_p0 e 0 st = st"
| "draw_parts_p0 e (Suc i) st = draw_parts_p0 e i (draw_step_p0 e i st)"

section \<open>\<^verbatim>\<open>handleHandInteraction\<close>\<close>

text \<open>
  A detected hand is the array of its landmarks; the hand landmarker always delivers all 21
  of them, so a hand is a total function from the landmark index to the normalised
  coordinates. \<^verbatim>\<open>result.landmarks\<close> is the list of detected hands.
\<close>

type_synonym hand = "nat \<Rightarrow> Point"

subsection \<open>\<^verbatim>\<open>part_000\<close> (lines 265-320)\<close>

text \<open>
  The bloom loop of lines 299-312, \<^verbatim>\<open>for (let i = treePositions.length - 1; i >= 0; i--)\<close>:
  the first argument counts the indices still to visit.
\<close>

fun bloom_loop_p0 :: "env \<Rightarrow> real \<Rightarrow> real \<Rightarrow> real \<Rightarrow> nat \<Rightarrow> int \<Rightarrow> sketch_p0 \<Rightarrow> sketch_p0" where
  "bloom_loop_p0 e x y searchRadius 0 bloomsNeeded st = st"
| "bloom_loop_p0 e x y searchRadius (Suc i) bloomsNeeded st =
     (if bloomsNeeded \<le> 0 then st
      else (let pt = treePositions st ! i;
                d = p_dist x y (fst pt) (snd pt)
            in if d < searchRadius
               then (let st1 = spawnFlower_p0 e (fst pt) (snd pt) st;
                         st2 = st1\<lparr>treePositions := splice (treePositions st1) i\<rparr>
                     in bloom_loop_p0 e x y searchRadius i (bloomsNeeded - 1) st2)
               else bloom_loop_p0 e x y searchRadius i bloomsNeeded st))"

definition velocity_p0 :: "env \<Rightarrow> hand \<Rightarrow> sketch_p0 \<Rightarrow> real" where
  "velocity_p0 e landmarks st =
     (let indexTip = landmarks 8;
          x = (1 - fst indexTip) * width e;
          y = snd indexTip * height e
      in case prevHandPos st of None \<Rightarrow> 0 | Some pv \<Rightarrow> p_dist x y (fst pv) (snd pv))"

text \<open>
  The number of blooms asked for (lines 284-293); the random draw happens only when the
  velocity test fails.
\<close>

definition bloomsNeeded_p0 :: "env \<Rightarrow> real \<Rightarrow> sketch_p0 \<Rightarrow> int \<times> sketch_p0" where
  "bloomsNeeded_p0 e velocity st =
     (if velocity > 8 then (5, st)
      else (let (u, s1) = p_random e (seed st)
            in (if u < 0.2 then 1 else 0, st\<lparr>seed := s1\<rparr>)))"

definition handleHandInteraction_p0 :: "env \<Rightarrow> hand list \<Rightarrow> sketch_p0 \<Rightarrow> sketch_p0" where
  "handleHandInteraction_p0 e result st0 =
     (case result of
        [] \<Rightarrow> st0\<lparr>prevHandPos := None\<rparr>
      | landmarks # _ \<Rightarrow>
         (let indexTip = landmarks 8;
              x = (1 - fst indexTip) * width e;
              y = snd indexTip * height e;
              currentPos = (x, y);
              velocity = velocity_p0 e landmarks st0;
              st3 = (if length (treePositions st0) > 0
                     then (let (bloomsNeeded, st1) = bloomsNeeded_p0 e velocity st0
                           in if bloomsNeeded > 0
                              then (let searchRadius = (if velocity > 8 then 80 else 40)
                                    in bloom_loop_p0 e x y searchRadius
                                         (length (treePositions st1)) bloomsNeeded st1)
                              else st1)
                     else st0)
          in st3\<lparr>prevHandPos := Some currentPos\<rparr>))"

subsection \<open>\<^verbatim>\<open>GenerativeTree.tsx\<close> (lines 468-578)\<close>

text \<open>\<^verbatim>\<open>wandPos.lerp(currentTipPos, 0.2)\<close>, the method of p5.Vector.\<close>

definition vector_lerp :: "Point \<Rightarrow> Point \<Rightarrow> real \<Rightarrow> Point" where
  "vector_lerp v w amt = (fst v + (fst w - fst v) * amt, snd v + (snd w - snd v) * amt)"

text \<open>The distance of line 537, from the index tip at \<open>(x, y)\<close> to a particle.\<close>

definition dist_to :: "real \<Rightarrow> real \<Rightarrow> Particle \<Rightarrow> real" where
  "dist_to x y part = p_dist x y (fst (pos part)) (snd (pos part))"

text \<open>
  The search for the closest flower (lines 528-543): \<open>closestFlower\<close> is kept as the index
  into \<^verbatim>\<open>parts\<close> of the object the source holds a reference to. The second argument is
  the index of the head of the list still to visit.
\<close>

fun closest_flower ::
  "real \<Rightarrow> real \<Rightarrow> nat \<Rightarrow> Particle list \<Rightarrow> real \<times> nat option \<Rightarrow> real \<times> nat option" where
  "closest_flower x y i [] acc = acc"
| "closest_flower x y i (part # rest) (closestDist, closestFlower) =
     (if tag part = FLOWER
      then (let d = dist_to x y part
            in if d < closestDist then closest_flower x y (Suc i) rest (d, Some i)
               else closest_flower x y (Suc i) rest (closestDist, closestFlower))
      else closest_flower x y (Suc i) rest (closestDist, closestFlower))"

text \<open>The magnify branch (lines 526-548).\<close>

definition magnify :: "env \<Rightarrow> real \<Rightarrow> real \<Rightarrow> Point \<Rightarrow> sketch \<Rightarrow> sketch" where
  "magnify e x y wrist st =
     (let wx = (1 - fst wrist) * width e;
          wy = snd wrist * height e;
          fingerAngle = p_atan2 (y - wy) (x - wx)
      in case snd (closest_flower x y 0 (parts st) (50, None)) of
           None \<Rightarrow> st
         | Some i \<Rightarrow>
             st\<lparr>parts := (parts st)[i := (parts st ! i)\<lparr>lastHoveredTime := millis e,
                                                        interactionRotation := fingerAngle\<rparr>]\<rparr>)"

text \<open>
  The interpolated probe of lines 555-556. With \<^verbatim>\<open>steps = 0\<close> the source divides 0 by 0:
  both coordinates are NaN, written \<open>None\<close> here, and every comparison with NaN is false.
\<close>

definition probe :: "Point \<Rightarrow> real \<Rightarrow> real \<Rightarrow> nat \<Rightarrow> nat \<Rightarrow> Point option" where
  "probe prev x y steps s =
     (if steps = 0 then None
      else Some (p_lerp (fst prev) x (real s / real steps),
                 p_lerp (snd prev) y (real s / real steps)))"

definition near :: "Point option \<Rightarrow> Point \<Rightarrow> real \<Rightarrow> bool" where
  "near pr pt searchRadius =
     (case pr of None \<Rightarrow> False
      | Some l \<Rightarrow> p_dist (fst l) (snd l) (fst pt) (snd pt) < searchRadius)"

text \<open>
  The inner loop of lines 559-567 over \<^verbatim>\<open>treePositions\<close>, from the last index down, with
  its \<^verbatim>\<open>break\<close> after the first bloom.
\<close>

fun paint_search :: "env \<Rightarrow> real \<Rightarrow> Point option \<Rightarrow> nat \<Rightarrow> sketch \<Rightarrow> sketch" where
  "paint_search e handScreenSizeRatio pr 0 st = st"
| "paint_search e handScreenSizeRatio pr (Suc i) st =
     (let pt = treePositions st ! i
      in if near pr pt 30
         then (let st1 = spawnFlower e (fst pt) (snd pt) handScreenSizeRatio st
               in st1\<lparr>treePositions := splice (treePositions st1) i\<rparr>)
         else paint_search e handScreenSizeRatio pr i st)"

definition paint_probe :: "env \<Rightarrow> real \<Rightarrow> Point \<Rightarrow> real \<Rightarrow> real \<Rightarrow> nat \<Rightarrow> sketch \<Rightarrow> nat \<Rightarrow> sketch" where
  "paint_probe e handScreenSizeRatio prev x y steps st s =
     paint_search e handScreenSizeRatio (probe prev x y steps s) (length (treePositions st)) st"

text \<open>The values of \<open>s\<close> that the loop \<^verbatim>\<open>for (let s = 0; s <= steps; s++)\<close> visits.\<close>

definition probe_steps :: "real \<Rightarrow> nat list" where
  "probe_steps velocity = [0 ..< Suc (nat \<lceil>velocity / 10\<rceil>)]"

text \<open>The painting branch (lines 552-569).\<close>

definition paint :: "env \<Rightarrow> real \<Rightarrow> real \<Rightarrow> real \<Rightarrow> real \<Rightarrow> sketch \<Rightarrow> sketch" where
  "paint e handScreenSizeRatio velocity x y st =
     (case prevIndexPos st of
        None \<Rightarrow> st
      | Some prev \<Rightarrow>
          if length (treePositions st) > 0
          then foldl (paint_probe e handScreenSizeRatio prev x y (nat \<lceil>velocity / 10\<rceil>)) st
                 (probe_steps velocity)
          else st)"

definition velocity_of :: "env \<Rightarrow> hand \<Rightarrow> sketch \<Rightarrow> real" where
  "velocity_of e landmarks st =
     (let indexTip = landmarks 8;
          x = (1 - fst indexTip) * width e;
          y = snd indexTip * height e
      in case prevIndexPos st of None \<Rightarrow> 0 | Some pv \<Rightarrow> p_dist x y (fst pv) (snd pv))"

text \<open>The pointing heuristic of lines 506-512, on the normalised coordinates.\<close>

definition isPointing :: "hand \<Rightarrow> bool" where
  "isPointing landmarks =
     (let wrist = landmarks 0;
          dIndex = p_dist (fst wrist) (snd wrist) (fst (landmarks 8)) (snd (landmarks 8));
          dMiddle = p_dist (fst wrist) (snd wrist) (fst (landmarks 12)) (snd (landmarks 12));
          dRing = p_dist (fst wrist) (snd wrist) (fst (landmarks 16)) (snd (landmarks 16));
          dPinky = p_dist (fst wrist) (snd wrist) (fst (landmarks 20)) (snd (landmarks 20))
      in dIndex > dMiddle * 1.1 \<and> dIndex > dRing * 1.1 \<and> dIndex > dPinky * 1.1)"

definition handScreenSizeRatio_of :: "env \<Rightarrow> hand \<Rightarrow> real" where
  "handScreenSizeRatio_of e landmarks =
     (let wrist = landmarks 0;
          indexBase = landmarks 5;
          handSizePixels = p_dist ((1 - fst wrist) * width e) (snd wrist * height e)
                             ((1 - fst indexBase) * width e) (snd indexBase * height e);
          screenDiag = p_dist 0 0 (width e) (height e)
      in handSizePixels / screenDiag)"

definition handleHandInteraction :: "env \<Rightarrow> hand list \<Rightarrow> sketch \<Rightarrow> sketch" where
  "handleHandInteraction e result st0 =
     (case result of
        [] \<Rightarrow> st0\<lparr>prevIndexPos := None, wandPos := None, fingerStillFrames := 0\<rparr>
      | landmarks # _ \<Rightarrow>
         (let indexTip = landmarks 8;
              wrist = landmarks 0;
              x = (1 - fst indexTip) * width e;
              y = snd indexTip * height e;
              currentTipPos = (x, y);
              st1 = st0\<lparr>wandPos := (case wandPos st0 of
                                        None \<Rightarrow> Some currentTipPos
                                      | Some w \<Rightarrow> Some (vector_lerp w currentTipPos 0.2))\<rparr>;
              handScreenSizeRatio = handScreenSizeRatio_of e landmarks;
              velocity = velocity_of e landmarks st1;
              isStill = velocity < 3;
              st2 = st1\<lparr>fingerStillFrames := (if isStill then fingerStillFrames st1 + 1 else 0)\<rparr>;
              st3 = (if isPointing landmarks \<and> fingerStillFrames st2 > 10
                     then magnify e x y wrist st2
                     else paint e handScreenSizeRatio velocity x y st2)
          in st3\<lparr>prevIndexPos := Some currentTipPos\<rparr>))"

section \<open>The frame callback \<^verbatim>\<open>p.draw\<close>\<close>

text \<open>
  What one frame reads from outside the sketch: whether the landmarker and the video are
  ready (the first five conjuncts of lines 407-411), the current video time, and what
  \<^verbatim>\<open>detectForVideo\<close> delivers (\<open>None\<close> when it throws; the exception is caught and
  logged in line 418).
\<close>

record frame_input =
  trackingReady :: bool
  currentTime :: real
  detectForVideo :: "hand list option"

text \<open>
  The first part of \<^verbatim>\<open>p.draw\<close>, headed \<^verbatim>\<open>// 1. Process Hand Tracking\<close> (lines 407-421 of
  \<^verbatim>\<open>GenerativeTree.tsx\<close>, 232-246 of \<^verbatim>\<open>part_000\<close>).
\<close>

definition processHandTracking :: "env \<Rightarrow> frame_input \<Rightarrow> sketch \<Rightarrow> sketch" where
  "processHandTracking e inp st0 =
     (if trackingReady inp \<and> currentTime inp \<noteq> lastVideoTime st0
      then (let st1 = st0\<lparr>lastVideoTime := currentTime inp\<rparr>
            in case detectForVideo inp of
                 None \<Rightarrow> st1
               | Some result \<Rightarrow> handleHandInteraction e result st1)
      else st0)"

definition processHandTracking_p0 :: "env \<Rightarrow> frame_input \<Rightarrow> sketch_p0 \<Rightarrow> sketch_p0" where
  "processHandTracking_p0 e inp st0 =
     (if trackingReady inp \<and> currentTime inp \<noteq> lastVideoTime st0
      then (let st1 = st0\<lparr>lastVideoTime := currentTime inp\<rparr>
            in case detectForVideo inp of
                 None \<Rightarrow> st1
               | Some result \<Rightarrow> handleHandInteraction_p0 e result st1)
      else st0)"

text \<open>
  \<^verbatim>\<open>p.draw\<close> of \<^verbatim>\<open>GenerativeTree.tsx\<close> (lines 405-466). \<^verbatim>\<open>p.image(treeLayer, 0, 0)\<close>
  covers the whole main canvas with the tree layer, which has the size of the canvas and
  an opaque background: what the canvas showed before is gone. Then come the particle
  loop, the flowers of the two local lists, and the wand.
\<close>

definition draw :: "env \<Rightarrow> frame_input \<Rightarrow> sketch \<Rightarrow> sketch" where
  "draw e inp st0 =
     (let st1 = processHandTracking e inp st0;
          st2 = st1\<lparr>canvas := treeLayer st1\<rparr>;
          (st3, backgroundFlowers, foregroundFlowers)
             = draw_parts e (length (parts st2)) (st2, [], []);
          st4 = display_all e backgroundFlowers st3;
          st5 = display_all e foregroundFlowers st4
      in case wandPos st5 of
           None \<Rightarrow> st5
         | Some w \<Rightarrow> st5\<lparr>canvas := drawWand w (canvas st5)\<rparr>)"

text \<open>\<^verbatim>\<open>p.draw\<close> of \<^verbatim>\<open>part_000\<close> (lines 230-263).\<close>

definition draw_p0 :: "env \<Rightarrow> frame_input \<Rightarrow> sketch_p0 \<Rightarrow> sketch_p0" where
  "draw_p0 e inp st0 =
     (let st1 = processHandTracking_p0 e inp st0
      in draw_parts_p0 e (length (parts st1)) st1)"

section \<open>Sequences of frames\<close>

text \<open>
  \<open>frames fs st\<close> runs the frame callback once for every element of \<open>fs\<close>, each with
  its environment and what the frame reads from outside. \<open>recorded fs st\<close> collects every
  entry that \<^verbatim>\<open>treePositions\<close> holds at the start or after one of these frames.
\<close>

fun frames :: "(env \<times> frame_input) list \<Rightarrow> sketch \<Rightarrow> sketch" where
  "frames [] st = st"
| "frames (f # fs) st = frames fs (draw (fst f) (snd f) st)"

fun recorded :: "(env \<times> frame_input) list \<Rightarrow> sketch \<Rightarrow> Point set" where
  "recorded [] st = set (treePositions st)"
| "recorded (f # fs) st = set (treePositions st) \<union> recorded fs (draw (fst f) (snd f) st)"

fun frames_p0 :: "(env \<times> frame_input) list \<Rightarrow> sketch_p0 \<Rightarrow> sketch_p0" where
  "frames_p0 [] st = st"
| "frames_p0 (f # fs) st = frames_p0 fs (draw_p0 (fst f) (snd f) st)"

fun recorded_p0 :: "(env \<times> frame_input) list \<Rightarrow> sketch_p0 \<Rightarrow> Point set" where
  "recorded_p0 [] st = set (treePositions st)"
| "recorded_p0 (f # fs) st = set (treePositions st) \<union> recorded_p0 fs (draw_p0 (fst f) (snd f) st)"

text \<open>
  The positions that tree particles occupy during a run. \<open>occupied_step e i ls\<close> is the
  position that the particle at index \<open>i\<close> has right after the \<^verbatim>\<open>update\<close> of iteration
  \<open>i\<close> of the particle loop, if it is not a flower; \<open>occupied_parts\<close> collects these over
  the iterations of one loop, \<open>occupied_draw\<close> over one frame and \<open>occupied\<close> over a
  sequence of frames, each iteration taken in the state in which the loop reaches it.
\<close>

definition occupied_step :: "env \<Rightarrow> nat \<Rightarrow> sketch \<Rightarrow> Point set" where
  "occupied_step e i st =
     (let part = parts st ! i;
          (isDead, part', st1) = update e part st
      in if tag part' = FLOWER then {} else {pos part'})"

fun occupied_parts ::
  "env \<Rightarrow> nat \<Rightarrow> sketch \<times> Particle list \<times> Particle list \<Rightarrow> Point set" where
  "occupied_parts e 0 ls = {}"
| "occupied_parts e (Suc i) ls =
     occupied_step e i (fst ls) \<union> occupied_parts e i (draw_step e i ls)"

definition occupied_draw :: "env \<Rightarrow> frame_input \<Rightarrow> sketch \<Rightarrow> Point set" where
  "occupied_draw e inp st0 =
     (let st1 = processHandTracking e inp st0;
          st2 = st1\<lparr>canvas := treeLayer st1\<rparr>
      in occupied_parts e (length (parts st2)) (st2, [], []))"

fun occupied :: "(env \<times> frame_input) list \<Rightarrow> sketch \<Rightarrow> Point set" where
  "occupied [] st = {}"
| "occupied (f # fs) st =
     occupied_draw (fst f) (snd f) st \<union> occupied fs (draw (fst f) (snd f) st)"

definition occupied_step_p0 :: "env \<Rightarrow> nat \<Rightarrow> sketch_p0 \<Rightarrow> Point set" where
  "occupied_step_p0 e i st =
     (let part = parts st ! i;
          (isDead, part', st1) = update_p0 e part st
      in if tag part' = FLOWER then {} else {pos part'})"

fun occupied_parts_p0 :: "env \<Rightarrow> nat \<Rightarrow> sketch_p0 \<Rightarrow> Point set" where
  "occupied_parts_p0 e 0 st = {}"
| "occupied_parts_p0 e (Suc i) st =
     occupied_step_p0 e i st \<union> occupied_parts_p0 e i (draw_step_p0 e i st)"

definition occupied_draw_p0 :: "env \<Rightarrow> frame_input \<Rightarrow> sketch_p0 \<Rightarrow> Point set" where
  "occupied_draw_p0 e inp st0 =
     (let st1 = processHandTracking_p0 e inp st0
      in occupied_parts_p0 e (length (parts st1)) st1)"

fun occupied_p0 :: "(env \<times> frame_input) list \<Rightarrow> sketch_p0 \<Rightarrow> Point set" where
  "occupied_p0 [] st = {}"
| "occupied_p0 (f # fs) st =
     occupied_draw_p0 (fst f) (snd f) st \<union> occupied_p0 fs (draw_p0 (fst f) (snd f) st)"

section \<open>Initialising the vision library: \<^verbatim>\<open>initVision\<close>\<close>









section \<open>A particle over its successive updates\<close>

text \<open>
  \<open>updates ctx n p\<close> is the particle \<open>p\<close> after its first \<open>n\<close> calls of \<^verbatim>\<open>update\<close>, where
  call number \<open>k\<close> runs in the environment \<open>fst (ctx k)\<close> on the sketch state
  \<open>snd (ctx k)\<close>: between two calls other particles and frames may do anything.
  \<open>dies_at ctx n p\<close> is what call number \<open>n\<close> returns.
\<close>

fun updates :: "(nat \<Rightarrow> env \<times> sketch) \<Rightarrow> nat \<Rightarrow> Particle \<Rightarrow> Particle" where
  "updates ctx 0 p = p"
| "updates ctx (Suc n) p = fst (snd (update (fst (ctx n)) (updates ctx n p) (snd (ctx n))))"

definition dies_at :: "(nat \<Rightarrow> env \<times> sketch) \<Rightarrow> nat \<Rightarrow> Particle \<Rightarrow> bool" where
  "dies_at ctx n p = fst (update (fst (ctx n)) (updates ctx n p) (snd (ctx n)))"

fun updates_p0 :: "(nat \<Rightarrow> env \<times> sketch_p0) \<Rightarrow> nat \<Rightarrow> Particle_p0 \<Rightarrow> Particle_p0" where
  "updates_p0 ctx 0 p = p"
| "updates_p0 ctx (Suc n) p =
     fst (snd (update_p0 (fst (ctx n)) (updates_p0 ctx n p) (snd (ctx n))))"

definition dies_at_p0 :: "(nat \<Rightarrow> env \<times> sketch_p0) \<Rightarrow> nat \<Rightarrow> Particle_p0 \<Rightarrow> bool" where
  "dies_at_p0 ctx n p = fst (update_p0 (fst (ctx n)) (updates_p0 ctx n p) (snd (ctx n)))"

text \<open>
  In \<^verbatim>\<open>part_000\<close> the taper is the third draw of an update of a tree particle, or the
  fourth when the curl of lines 135-137 took one more.
\<close>

definition taper_index_p0 :: "env \<Rightarrow> ParticleType \<Rightarrow> sketch_p0 \<Rightarrow> nat" where
  "taper_index_p0 e tg st =
     (if rnd e (Suc (seed st)) < 0.005 \<and> tg \<noteq> TRUNK
      then Suc (Suc (Suc (seed st))) else Suc (Suc (seed st)))"

section \<open>Concrete inputs\<close>

definition env0 :: env where
  "env0 = \<lparr> width = 800, height = 600, frameCount = 5, millis = 1000, rnd = (\<lambda>_. 1 / 2) \<rparr>"

text \<open>The same environment with a generator that returns 0 on every draw.\<close>

definition env_zero :: env where
  "env_zero = env0\<lparr>rnd := (\<lambda>_. 0)\<rparr>"

definition sketch0 :: sketch where
  "sketch0 = \<lparr> parts = [], treePositions = [], lastVideoTime = - 1, seed = 0, canvas = [],
               prevIndexPos = None, fingerStillFrames = 0, wandPos = None, treeLayer = [] \<rparr>"

definition sketch0_p0 :: sketch_p0 where
  "sketch0_p0 = \<lparr> parts = [], treePositions = [], lastVideoTime = - 1, seed = 0, canvas = [],
                  prevHandPos = None \<rparr>"

definition flower0 :: Particle where
  "flower0 = fst (new_Particle env0 100 200 ''#FFB7B2'' 20 0 0 0 FLOWER 0)"

definition flower0_p0 :: Particle_p0 where
  "flower0_p0 = fst (new_Particle_p0 env0 100 200 ''#FFB7B2'' 20 0 0 0 FLOWER 0)"

definition trunk0 :: Particle where
  "trunk0 = fst (new_Particle env0 400 570 PALETTE_trunk 100 260 0 500 TRUNK 0)"

definition trunk0_p0 :: Particle_p0 where
  "trunk0_p0 = fst (new_Particle_p0 env0 380 620 PALETTE_trunk_p0 50 270 0 500 TRUNK 0)"


definition speck0 :: Particle where
  "speck0 = fst (new_Particle env0 400 300 PALETTE_trunk (1 / 20) 260 0 500 TWIG 0)"

definition speck0_p0 :: Particle_p0 where
  "speck0_p0 = fst (new_Particle_p0 env0 400 300 PALETTE_trunk_p0 (1 / 20) 270 0 500 TWIG 0)"


definition hand_flat :: hand where
  "hand_flat = (\<lambda>_. (1 / 2, 1 / 2))"




definition frame_flat :: frame_input where
  "frame_flat = \<lparr> trackingReady = True, currentTime = 1, detectForVideo = Some [hand_flat] \<rparr>"

definition sketch_bare :: sketch where
  "sketch_bare = \<lparr> parts = [], treePositions = [(390, 300)], lastVideoTime = 0,
                   seed = 0, canvas = [], prevIndexPos = Some (390, 300),
                   fingerStillFrames = 0, wandPos = Some (390, 300), treeLayer = [] \<rparr>"

definition sketch_bare_p0 :: sketch_p0 where
  "sketch_bare_p0 = \<lparr> parts = [], treePositions = [(390, 300)], lastVideoTime = 0,
                      seed = 0, canvas = [], prevHandPos = Some (390, 300) \<rparr>"

definition sketch_slow :: sketch where
  "sketch_slow = sketch_bare\<lparr>prevIndexPos := Some (395, 300)\<rparr>"

definition sketch_fast :: sketch where
  "sketch_fast = sketch_bare\<lparr>prevIndexPos := Some (420, 300)\<rparr>"

definition sketch_slow_p0 :: sketch_p0 where
  "sketch_slow_p0 = sketch_bare_p0\<lparr>prevHandPos := Some (395, 300)\<rparr>"

text \<open>
  A run of two frames from a sketch that holds one trunk and no recorded position. The
  trunk stands at \<open>(400, 300)\<close> and heads right. In the first frame, on which both
  revisions record positions, the hand shows up at \<open>(400, 300)\<close>; in the second it has
  moved to \<open>(410, 300)\<close>.
\<close>

definition env_first :: env where
  "env_first = env0\<lparr>frameCount := 20\<rparr>"

definition env_second :: env where
  "env_second = env0\<lparr>frameCount := 21, millis := 1016\<rparr>"

definition sprout :: Particle where
  "sprout = fst (new_Particle env0 400 300 PALETTE_trunk 100 0 0 500 TRUNK 0)"

definition sprout_p0 :: Particle_p0 where
  "sprout_p0 = fst (new_Particle_p0 env0 400 300 PALETTE_trunk_p0 50 0 0 500 TRUNK 0)"

definition sketch_sprout :: sketch where
  "sketch_sprout = sketch0\<lparr>parts := [sprout]\<rparr>"

definition sketch_sprout_p0 :: sketch_p0 where
  "sketch_sprout_p0 = sketch0_p0\<lparr>parts := [sprout_p0]\<rparr>"

definition hand_reach :: hand where
  "hand_reach = (\<lambda>_. (39 / 80, 1 / 2))"

definition frame_reach :: frame_input where
  "frame_reach = \<lparr> trackingReady = True, currentTime = 2, detectForVideo = Some [hand_reach] \<rparr>"

definition run_bloom :: "(env \<times> frame_input) list" where
  "run_bloom = [(env_first, frame_flat), (env_second, frame_reach)]"

section \<open>Facts about the helpers\<close>

lemma p_lerp_zero: "p_lerp a 0 r = a * (1 - r)"
  by (simp add: p_lerp_def algebra_simps)

lemma p_constrain_bounds: "low \<le> high \<Longrightarrow> low \<le> p_constrain n low high \<and> p_constrain n low high \<le> high"
  by (simp add: p_constrain_def)

lemma p_map_within: "start2 < stop2 \<Longrightarrow>
    start2 \<le> p_map n start1 stop1 start2 stop2 True \<and> p_map n start1 stop1 start2 stop2 True \<le> stop2"
  by (simp add: p_map_def Let_def p_constrain_def)

lemma new_Particle_fields:
  "pos (fst (new_Particle e sx sy sc ss sd sl ls tg s)) = (sx, sy)"
  "asiz (fst (new_Particle e sx sy sc ss sd sl ls tg s)) = ss"
  "tag (fst (new_Particle e sx sy sc ss sd sl ls tg s)) = tg"
  "siz (fst (new_Particle e sx sy sc ss sd sl ls tg s)) = (if tg = FLOWER then 0 else 1)"
  by (simp_all add: new_Particle_def Let_def split_beta)

lemma new_Particle_p0_fields:
  "pos (fst (new_Particle_p0 e sx sy sc ss sd sl ls tg s)) = (sx, sy)"
  "asiz (fst (new_Particle_p0 e sx sy sc ss sd sl ls tg s)) = ss"
  "tag (fst (new_Particle_p0 e sx sy sc ss sd sl ls tg s)) = tg"
  "siz (fst (new_Particle_p0 e sx sy sc ss sd sl ls tg s)) = (if tg = FLOWER then 0 else 1)"
  by (simp_all add: new_Particle_p0_def Let_def split_beta)

lemma p_dist_horizontal: "p_dist x1 y x2 y = \<bar>x2 - x1\<bar>"
  by (simp add: p_dist_def)

lemma p_dist_vertical: "p_dist x y1 x y2 = \<bar>y2 - y1\<bar>"
  by (simp add: p_dist_def)

section \<open>Flower size\<close>

text \<open>
  Claim C8. For every value of \<open>handScreenSizeRatio\<close>, \<^verbatim>\<open>spawnFlower\<close> of
  \<^verbatim>\<open>GenerativeTree.tsx\<close> pushes exactly one particle onto \<^verbatim>\<open>parts\<close>; it is a \<open>FLOWER\<close> at
  the given coordinates and its \<open>asiz\<close> lies in the closed interval from 10 to 35, because
  the mapping of the hand size is constrained to its target range.
\<close>

theorem spawnFlower_asiz_clamped:
  "\<exists>flower. parts (spawnFlower e x y handScreenSizeRatio st) = parts st @ [flower]
      \<and> tag flower = FLOWER \<and> pos flower = (x, y)
      \<and> 10 \<le> asiz flower \<and> asiz flower \<le> 35"
proof -
  have m: "10 \<le> p_map handScreenSizeRatio 0.05 0.3 10 35 True
         \<and> p_map handScreenSizeRatio 0.05 0.3 10 35 True \<le> 35"
    using p_map_within [of 10 35 handScreenSizeRatio "0.05" "0.3"] by simp
  show ?thesis
    using m by (simp add: spawnFlower_def Let_def split_beta new_Particle_fields)
qed

section \<open>Failure handling of \<^verbatim>\<open>initVision\<close>\<close>






section \<open>Flowers stay where they bloom\<close>

lemma update_flower_keeps:
  "pos (update_flower e p) = pos p" "tag (update_flower e p) = tag p"
  "spd (update_flower e p) = spd p" "asiz (update_flower e p) = asiz p"
  by (simp_all add: update_flower_def Let_def)

lemma update_flower_siz: "siz p \<le> 1 \<Longrightarrow> siz (update_flower e p) \<le> 1"
  by (simp add: update_flower_def Let_def)

lemma update_on_flower:
  "tag p = FLOWER \<Longrightarrow> update e p st = (False, update_flower e (p\<lparr>life := life p + 1\<rparr>), st)"
  by (simp add: update_def Let_def)

lemma update_p0_on_flower:
  "tag p = FLOWER \<Longrightarrow>
     pos (fst (snd (update_p0 e p st))) = pos p
     \<and> tag (fst (snd (update_p0 e p st))) = FLOWER
     \<and> siz (fst (snd (update_p0 e p st))) \<le> 1
     \<and> snd (snd (update_p0 e p st)) = st"
  by (simp add: update_p0_def Let_def)

lemma updates_flower:
  "tag p = FLOWER \<Longrightarrow> siz p \<le> 1 \<Longrightarrow>
     tag (updates ctx n p) = FLOWER \<and> pos (updates ctx n p) = pos p \<and> siz (updates ctx n p) \<le> 1"
  by (induction n) (simp_all add: update_on_flower update_flower_keeps update_flower_siz)

lemma updates_p0_flower:
  "tag q = FLOWER \<Longrightarrow>
     tag (updates_p0 ctx n q) = FLOWER \<and> pos (updates_p0 ctx n q) = pos q
     \<and> (siz q \<le> 1 \<longrightarrow> siz (updates_p0 ctx n q) \<le> 1)"
  by (induction n) (simp_all add: update_p0_on_flower)

text \<open>
  Claim C9. A flower is built with speed 0 and size 0. Whatever happens between its
  updates, after any number \<open>n\<close> of calls of \<^verbatim>\<open>update\<close> a \<open>FLOWER\<close> particle is at the
  position it had before them, and its \<open>siz\<close>, at most 1 before, is still at most 1; in both
  revisions.
\<close>

theorem flower_stationary_bounded:
  assumes "tag p = FLOWER" and "siz p \<le> 1" and "tag q = FLOWER" and "siz q \<le> 1"
  shows "pos (updates ctx n p) = pos p \<and> siz (updates ctx n p) \<le> 1
       \<and> pos (updates_p0 ctxq n q) = pos q \<and> siz (updates_p0 ctxq n q) \<le> 1
       \<and> spd (fst (new_Particle e sx sy sc ss sd sl ls FLOWER s)) = 0
       \<and> siz (fst (new_Particle e sx sy sc ss sd sl ls FLOWER s)) = 0
       \<and> spd (fst (new_Particle_p0 e sx sy sc ss sd sl ls FLOWER s)) = 0
       \<and> siz (fst (new_Particle_p0 e sx sy sc ss sd sl ls FLOWER s)) = 0"
  using updates_flower [OF assms(1,2), of ctx n] updates_p0_flower [OF assms(3), of ctxq n] assms(4)
  by (simp add: new_Particle_def new_Particle_p0_def Let_def split_beta)

theorem flower_stationary_bounded_witness:
  "pos (updates (\<lambda>_. (env0, sketch0)) 12 flower0) = (100, 200)
   \<and> siz (updates (\<lambda>_. (env0, sketch0)) 12 flower0) \<le> 1
   \<and> pos (updates_p0 (\<lambda>_. (env0, sketch0_p0)) 12 flower0_p0) = (100, 200)
   \<and> siz (updates_p0 (\<lambda>_. (env0, sketch0_p0)) 12 flower0_p0) \<le> 1"
proof -
  have h: "tag flower0 = FLOWER" "siz flower0 \<le> 1" "tag flower0_p0 = FLOWER" "siz flower0_p0 \<le> 1"
    by (simp_all add: flower0_def flower0_p0_def new_Particle_fields new_Particle_p0_fields)
  have p: "pos flower0 = (100, 200)" "pos flower0_p0 = (100, 200)"
    by (simp_all add: flower0_def flower0_p0_def new_Particle_fields new_Particle_p0_fields)
  show ?thesis
    using flower_stationary_bounded [OF h, where ctx = "\<lambda>_. (env0, sketch0)" and n = 12
        and ctxq = "\<lambda>_. (env0, sketch0_p0)"] p
    by simp
qed

section \<open>Tree particles taper\<close>

lemma grow_fields:
  "siz (fst (grow e p s)) = p_lerp (siz p) 0 (rnd e (Suc s) * 0.015)"
  "asiz (fst (grow e p s)) = asiz p"
  "tag (fst (grow e p s)) = tag p"
  "spd (fst (grow e p s)) = spd p"
  "rsiz (fst (grow e p s)) = asiz p * siz p"
  "snd (grow e p s) = Suc (Suc s)"
  by (simp_all add: grow_def Let_def split_beta p_random_range_def p_random_max_def)

lemma update_tree:
  assumes "tag p \<noteq> FLOWER"
  shows "siz (fst (snd (update e p st))) = p_lerp (siz p) 0 (rnd e (Suc (seed st)) * 0.015)"
    and "asiz (fst (snd (update e p st))) = asiz p"
    and "tag (fst (snd (update e p st))) = tag p"
    and "spd (fst (snd (update e p st))) = spd p"
    and "rsiz (fst (snd (update e p st))) = asiz p * siz p"
    and "fst (update e p st) = (asiz p * siz p < 0.1 \<or> spd p > asiz p * siz p)"
  using assms
  by (simp_all add: update_def Let_def split_beta grow_fields)

lemma grow_p0_fields:
  "siz (fst (grow_p0 e p st)) = p_lerp (siz p) 0 (rnd e (taper_index_p0 e (tag p) st) * 0.015)"
  "asiz (fst (grow_p0 e p st)) = asiz p"
  "tag (fst (grow_p0 e p st)) = tag p"
  "spd (fst (grow_p0 e p st)) = spd p"
  by (simp_all add: grow_p0_def Let_def split_beta p_random_range_def p_random_max_def
      p_random_def curl_p0_def taper_index_p0_def)

lemma grow_p0_sketch:
  "snd (grow_p0 e p st) = st\<lparr>treePositions := treePositions st @ [pos (fst (grow_p0 e p st))],
                              seed := Suc (taper_index_p0 e (tag p) st)\<rparr>
   \<or> snd (grow_p0 e p st) = st\<lparr>seed := Suc (taper_index_p0 e (tag p) st)\<rparr>"
  by (simp add: grow_p0_def Let_def split_beta p_random_range_def p_random_max_def
      p_random_def curl_p0_def taper_index_p0_def)

lemma grow_p0_parts: "parts (snd (grow_p0 e p st)) = parts st"
  using grow_p0_sketch [of e p st] by (elim disjE) simp_all

lemma update_p0_tree:
  assumes "tag p \<noteq> FLOWER"
  shows "siz (fst (snd (update_p0 e p st)))
           = p_lerp (siz p) 0 (rnd e (taper_index_p0 e (tag p) st) * 0.015)"
    and "asiz (fst (snd (update_p0 e p st))) = asiz p"
    and "tag (fst (snd (update_p0 e p st))) = tag p"
    and "spd (fst (snd (update_p0 e p st))) = spd p"
    and "fst (update_p0 e p st) =
           (asiz p * siz (fst (snd (update_p0 e p st))) < 0.5
            \<or> spd p > asiz p * siz (fst (snd (update_p0 e p st))))"
  using assms
  by (simp_all add: update_p0_def Let_def split_beta grow_p0_fields)

lemma updates_tree_keeps:
  "tag p \<noteq> FLOWER \<Longrightarrow>
     tag (updates ctx n p) = tag p \<and> asiz (updates ctx n p) = asiz p \<and> spd (updates ctx n p) = spd p"
  by (induction n) (simp_all add: update_tree)

lemma updates_p0_tree_keeps:
  "tag q \<noteq> FLOWER \<Longrightarrow>
     tag (updates_p0 ctx n q) = tag q \<and> asiz (updates_p0 ctx n q) = asiz q
     \<and> spd (updates_p0 ctx n q) = spd q"
  by (induction n) (simp_all add: update_p0_tree)

lemma updates_siz_step:
  assumes "tag p \<noteq> FLOWER"
  shows "siz (updates ctx (Suc n) p)
     = p_lerp (siz (updates ctx n p)) 0 (rnd (fst (ctx n)) (Suc (seed (snd (ctx n)))) * 0.015)"
proof -
  have t: "tag (updates ctx n p) \<noteq> FLOWER"
    using updates_tree_keeps [OF assms, of ctx n] assms by simp
  show ?thesis by (simp add: update_tree(1) [OF t])
qed

lemma updates_p0_siz_step:
  assumes "tag q \<noteq> FLOWER"
  shows "siz (updates_p0 ctx (Suc n) q)
     = p_lerp (siz (updates_p0 ctx n q)) 0
         (rnd (fst (ctx n)) (taper_index_p0 (fst (ctx n)) (tag q) (snd (ctx n))) * 0.015)"
proof -
  have t: "tag (updates_p0 ctx n q) \<noteq> FLOWER" "tag (updates_p0 ctx n q) = tag q"
    using updates_p0_tree_keeps [OF assms, of ctx n] assms by simp_all
  show ?thesis by (simp add: update_p0_tree(1) [OF t(1)] t(2))
qed

lemma updates_rsiz:
  assumes "tag p \<noteq> FLOWER"
  shows "rsiz (updates ctx (Suc n) p) = asiz p * siz (updates ctx n p)"
proof -
  have t: "tag (updates ctx n p) \<noteq> FLOWER" "asiz (updates ctx n p) = asiz p"
    using updates_tree_keeps [OF assms, of ctx n] assms by simp_all
  show ?thesis by (simp add: update_tree(5) [OF t(1)] t(2))
qed

text \<open>
  A sequence of sizes in which each is \<^verbatim>\<open>lerp(size, 0, random(0.015))\<close> of the one before:
  it never grows, it shrinks for a positive draw, and it decays geometrically when the
  draws stay above a positive bound.
\<close>

lemma taper_sequence:
  fixes s u :: "nat \<Rightarrow> real"
  assumes step: "\<And>n. s (Suc n) = p_lerp (s n) 0 (u n * 0.015)"
    and start: "0 \<le> s 0" and unit: "\<forall>k. 0 \<le> u k \<and> u k < 1"
  shows "0 \<le> s n" and "s (Suc n) \<le> s n" and "0 < u n \<Longrightarrow> 0 < s n \<Longrightarrow> s (Suc n) < s n"
proof -
  have eq: "s (Suc n) = s n * (1 - u n * 0.015)" for n
    by (simp add: step p_lerp_zero)
  have f: "0 \<le> 1 - u n * 0.015" "1 - u n * 0.015 \<le> 1" for n
    using unit [rule_format, of n] by simp_all
  show nonneg: "0 \<le> s n" for n
  proof (induction n)
    case 0
    show ?case by (rule start)
  next
    case (Suc n)
    show ?case unfolding eq using Suc f(1) [of n] by simp
  qed
  have "s n * (1 - u n * 0.015) \<le> s n * 1"
    using nonneg [of n] f(2) [of n] by (intro mult_left_mono) simp_all
  then show "s (Suc n) \<le> s n" unfolding eq by simp
  show "s (Suc n) < s n" if "0 < u n" "0 < s n"
  proof -
    have "1 - u n * 0.015 < 1" using that(1) by simp
    then have "s n * (1 - u n * 0.015) < s n * 1"
      using that(2) by (intro mult_strict_left_mono) simp_all
    then show ?thesis unfolding eq by simp
  qed
qed

lemma taper_decay:
  fixes s u :: "nat \<Rightarrow> real"
  assumes step: "\<And>n. s (Suc n) = p_lerp (s n) 0 (u n * 0.015)"
    and start: "0 \<le> s 0" and unit: "\<forall>k. eps \<le> u k \<and> u k < 1" and eps: "0 < eps"
  shows "s n \<le> s 0 * (1 - eps * 0.015) ^ n" and "s \<longlonglongrightarrow> 0"
proof -
  have eq: "s (Suc n) = s n * (1 - u n * 0.015)" for n
    by (simp add: step p_lerp_zero)
  have unit0: "\<forall>k. 0 \<le> u k \<and> u k < 1"
    using unit eps by (meson less_eq_real_def order_trans)
  have nonneg: "0 \<le> s n" for n
    by (rule taper_sequence(1) [of s u, OF step start unit0])
  have e1: "eps < 1" using unit [rule_format, of 0] by simp
  have c: "0 \<le> 1 - eps * 0.015" "1 - eps * 0.015 < 1" using eps e1 by simp_all
  show bound: "s n \<le> s 0 * (1 - eps * 0.015) ^ n" for n
  proof (induction n)
    case 0
    show ?case by simp
  next
    case (Suc n)
    have f: "0 \<le> 1 - u n * 0.015" "1 - u n * 0.015 \<le> 1 - eps * 0.015"
      using unit [rule_format, of n] by simp_all
    have "s n * (1 - u n * 0.015) \<le> s n * (1 - eps * 0.015)"
      using nonneg [of n] f by (intro mult_left_mono) simp_all
    also have "\<dots> \<le> (s 0 * (1 - eps * 0.015) ^ n) * (1 - eps * 0.015)"
      using Suc c(1) by (intro mult_right_mono) simp_all
    finally show ?case unfolding eq by (simp add: mult_ac)
  qed
  have "(\<lambda>n. (1 - eps * 0.015) ^ n) \<longlonglongrightarrow> 0"
    by (rule LIMSEQ_realpow_zero [OF c])
  then have "(\<lambda>n. s 0 * (1 - eps * 0.015) ^ n) \<longlonglongrightarrow> s 0 * 0"
    by (rule tendsto_mult_left)
  then have lim: "(\<lambda>n. s 0 * (1 - eps * 0.015) ^ n) \<longlonglongrightarrow> 0" by simp
  show "s \<longlonglongrightarrow> 0"
  proof (rule real_tendsto_sandwich [OF _ _ tendsto_const lim])
    show "\<forall>\<^sub>F n in sequentially. 0 \<le> s n" using nonneg by simp
    show "\<forall>\<^sub>F n in sequentially. s n \<le> s 0 * (1 - eps * 0.015) ^ n" using bound by simp
  qed
qed

lemma abs_rendered_mono:
  fixes a s s' :: real
  assumes "0 \<le> s'" and "s' \<le> s"
  shows "\<bar>a * s'\<bar> \<le> \<bar>a * s\<bar>"
proof -
  have "\<bar>a\<bar> * s' \<le> \<bar>a\<bar> * s" using assms by (intro mult_left_mono) simp_all
  then show ?thesis using assms by (simp add: abs_mult)
qed

text \<open>
  Claim C2. Take a particle tagged \<open>TRUNK\<close>, \<open>BRANCH\<close> or \<open>TWIG\<close> whose \<open>siz\<close> is not
  negative (the constructor sets it to 1). Write \<open>u k\<close> for the unit draw that call number
  \<open>k\<close> of its \<^verbatim>\<open>update\<close> uses in \<^verbatim>\<open>p.random(0.015)\<close>, and let these draws lie in the
  half-open interval from 0 to 1; nothing is asked of the other draws. Then call number
  \<open>n\<close> replaces \<open>siz\<close> by \<open>lerp(siz, 0, r)\<close> with \<open>r = u n * 0.015\<close>, which lies in
  \<open>[0, 0.015)\<close>; the new \<open>siz\<close> is at most the old one and not negative, and strictly
  smaller when the draw and the old \<open>siz\<close> are positive (it is the old \<open>siz\<close> times
  \<open>1 - r\<close>); the magnitude of the rendered size
  \<open>asiz * siz\<close> never grows. When the draws stay above some \<open>eps > 0\<close>, \<open>siz\<close> after \<open>n\<close>
  calls is at most \<open>(1 - 0.015 * eps) ^ n\<close> times the initial one, and both \<open>siz\<close> and the
  rendered size converge to 0. In \<^verbatim>\<open>GenerativeTree.tsx\<close> the rendered size is the field
  \<open>rsiz\<close>, which holds \<open>asiz\<close> times the \<open>siz\<close> from before the call; in \<^verbatim>\<open>part_000\<close> it is
  \<open>asiz * siz\<close>, computed where it is used.
\<close>

theorem tree_size_tapers:
  fixes ctx :: "nat \<Rightarrow> env \<times> sketch" and ctxq :: "nat \<Rightarrow> env \<times> sketch_p0"
    and p :: Particle and q :: Particle_p0
  defines "u \<equiv> \<lambda>k. rnd (fst (ctx k)) (Suc (seed (snd (ctx k))))"
    and "v \<equiv> \<lambda>k. rnd (fst (ctxq k)) (taper_index_p0 (fst (ctxq k)) (tag q) (snd (ctxq k)))"
  assumes "tag p \<in> {TRUNK, BRANCH, TWIG}" and "0 \<le> siz p" and "\<forall>k. 0 \<le> u k \<and> u k < 1"
    and "tag q \<in> {TRUNK, BRANCH, TWIG}" and "0 \<le> siz q" and "\<forall>k. 0 \<le> v k \<and> v k < 1"
  shows "siz (updates ctx (Suc n) p) = p_lerp (siz (updates ctx n p)) 0 (u n * 0.015)
       \<and> siz (updates ctx (Suc n) p) = siz (updates ctx n p) * (1 - u n * 0.015)
       \<and> 0 \<le> u n * 0.015 \<and> u n * 0.015 < 0.015
       \<and> siz (updates ctx (Suc n) p) \<le> siz (updates ctx n p)
       \<and> 0 \<le> siz (updates ctx (Suc n) p)
       \<and> (0 < u n \<and> 0 < siz (updates ctx n p)
            \<longrightarrow> siz (updates ctx (Suc n) p) < siz (updates ctx n p))
       \<and> \<bar>asiz (updates ctx (Suc n) p) * siz (updates ctx (Suc n) p)\<bar>
           \<le> \<bar>asiz (updates ctx n p) * siz (updates ctx n p)\<bar>
       \<and> rsiz (updates ctx (Suc n) p) = asiz p * siz (updates ctx n p)
       \<and> (0 < eps \<and> (\<forall>k. eps \<le> u k)
            \<longrightarrow> siz (updates ctx n p) \<le> siz p * (1 - eps * 0.015) ^ n
              \<and> (\<lambda>m. siz (updates ctx m p)) \<longlonglongrightarrow> 0
              \<and> (\<lambda>m. rsiz (updates ctx (Suc m) p)) \<longlonglongrightarrow> 0)
       \<and> siz (updates_p0 ctxq (Suc n) q) = p_lerp (siz (updates_p0 ctxq n q)) 0 (v n * 0.015)
       \<and> siz (updates_p0 ctxq (Suc n) q) = siz (updates_p0 ctxq n q) * (1 - v n * 0.015)
       \<and> 0 \<le> v n * 0.015 \<and> v n * 0.015 < 0.015
       \<and> siz (updates_p0 ctxq (Suc n) q) \<le> siz (updates_p0 ctxq n q)
       \<and> 0 \<le> siz (updates_p0 ctxq (Suc n) q)
       \<and> (0 < v n \<and> 0 < siz (updates_p0 ctxq n q)
            \<longrightarrow> siz (updates_p0 ctxq (Suc n) q) < siz (updates_p0 ctxq n q))
       \<and> \<bar>asiz (updates_p0 ctxq (Suc n) q) * siz (updates_p0 ctxq (Suc n) q)\<bar>
           \<le> \<bar>asiz (updates_p0 ctxq n q) * siz (updates_p0 ctxq n q)\<bar>
       \<and> (0 < eps \<and> (\<forall>k. eps \<le> v k)
            \<longrightarrow> siz (updates_p0 ctxq n q) \<le> siz q * (1 - eps * 0.015) ^ n
              \<and> (\<lambda>m. siz (updates_p0 ctxq m q)) \<longlonglongrightarrow> 0
              \<and> (\<lambda>m. asiz (updates_p0 ctxq m q) * siz (updates_p0 ctxq m q)) \<longlonglongrightarrow> 0)"
proof -
  have tp: "tag p \<noteq> FLOWER" and tq: "tag q \<noteq> FLOWER" using assms(3,6) by auto
  let ?s = "\<lambda>m. siz (updates ctx m p)" and ?t = "\<lambda>m. siz (updates_p0 ctxq m q)"
  have sa: "?s (Suc m) = p_lerp (?s m) 0 (u m * 0.015)" for m
    unfolding u_def by (rule updates_siz_step [OF tp])
  have sb: "?t (Suc m) = p_lerp (?t m) 0 (v m * 0.015)" for m
    unfolding v_def by (rule updates_p0_siz_step [OF tq])
  have s0: "0 \<le> ?s 0" and t0: "0 \<le> ?t 0" using assms(4,7) by simp_all
  have ma: "?s (Suc n) = ?s n * (1 - u n * 0.015)" unfolding sa by (rule p_lerp_zero)
  have mb: "?t (Suc n) = ?t n * (1 - v n * 0.015)" unfolding sb by (rule p_lerp_zero)
  note a = taper_sequence [of ?s u, OF sa s0 assms(5)]
  note b = taper_sequence [of ?t v, OF sb t0 assms(8)]
  have ka: "asiz (updates ctx m p) = asiz p" for m
    using updates_tree_keeps [OF tp, of ctx m] by simp
  have kb: "asiz (updates_p0 ctxq m q) = asiz q" for m
    using updates_p0_tree_keeps [OF tq, of ctxq m] by simp
  have ra: "rsiz (updates ctx (Suc m) p) = asiz p * ?s m" for m
    by (rule updates_rsiz [OF tp])
  have ua: "0 \<le> u n * 0.015 \<and> u n * 0.015 < 0.015"
    using assms(5) [rule_format, of n] by simp
  have ub: "0 \<le> v n * 0.015 \<and> v n * 0.015 < 0.015"
    using assms(8) [rule_format, of n] by simp
  have a4: "0 < u n \<and> 0 < ?s n \<longrightarrow> ?s (Suc n) < ?s n" using a(3) [of n] by simp
  have b4: "0 < v n \<and> 0 < ?t n \<longrightarrow> ?t (Suc n) < ?t n" using b(3) [of n] by simp
  have a5: "\<bar>asiz (updates ctx (Suc n) p) * ?s (Suc n)\<bar> \<le> \<bar>asiz (updates ctx n p) * ?s n\<bar>"
    unfolding ka by (rule abs_rendered_mono [OF a(1) a(2)])
  have b5: "\<bar>asiz (updates_p0 ctxq (Suc n) q) * ?t (Suc n)\<bar>
      \<le> \<bar>asiz (updates_p0 ctxq n q) * ?t n\<bar>"
    unfolding kb by (rule abs_rendered_mono [OF b(1) b(2)])
  have a7: "0 < eps \<and> (\<forall>k. eps \<le> u k)
        \<longrightarrow> ?s n \<le> siz p * (1 - eps * 0.015) ^ n \<and> ?s \<longlonglongrightarrow> 0
          \<and> (\<lambda>m. rsiz (updates ctx (Suc m) p)) \<longlonglongrightarrow> 0"
  proof
    assume h: "0 < eps \<and> (\<forall>k. eps \<le> u k)"
    then have unit: "\<forall>k. eps \<le> u k \<and> u k < 1" using assms(5) by simp
    note d = taper_decay [of ?s u, OF sa s0 unit]
    have l: "?s \<longlonglongrightarrow> 0" using d(2) h by simp
    have "(\<lambda>m. asiz p * ?s m) \<longlonglongrightarrow> asiz p * 0" using l by (rule tendsto_mult_left)
    then have "(\<lambda>m. rsiz (updates ctx (Suc m) p)) \<longlonglongrightarrow> 0" unfolding ra by simp
    then show "?s n \<le> siz p * (1 - eps * 0.015) ^ n \<and> ?s \<longlonglongrightarrow> 0
          \<and> (\<lambda>m. rsiz (updates ctx (Suc m) p)) \<longlonglongrightarrow> 0"
      using d(1) [of n] h l by simp
  qed
  have b7: "0 < eps \<and> (\<forall>k. eps \<le> v k)
        \<longrightarrow> ?t n \<le> siz q * (1 - eps * 0.015) ^ n \<and> ?t \<longlonglongrightarrow> 0
          \<and> (\<lambda>m. asiz (updates_p0 ctxq m q) * ?t m) \<longlonglongrightarrow> 0"
  proof
    assume h: "0 < eps \<and> (\<forall>k. eps \<le> v k)"
    then have unit: "\<forall>k. eps \<le> v k \<and> v k < 1" using assms(8) by simp
    note d = taper_decay [of ?t v, OF sb t0 unit]
    have l: "?t \<longlonglongrightarrow> 0" using d(2) h by simp
    have "(\<lambda>m. asiz q * ?t m) \<longlonglongrightarrow> asiz q * 0" using l by (rule tendsto_mult_left)
    then have "(\<lambda>m. asiz (updates_p0 ctxq m q) * ?t m) \<longlonglongrightarrow> 0" unfolding kb by simp
    then show "?t n \<le> siz q * (1 - eps * 0.015) ^ n \<and> ?t \<longlonglongrightarrow> 0
          \<and> (\<lambda>m. asiz (updates_p0 ctxq m q) * ?t m) \<longlonglongrightarrow> 0"
      using d(1) [of n] h l by simp
  qed
  show ?thesis
    using sa [of n] ma ua a(2) [of n] a(1) [of "Suc n"] a4 a5 ra [of n] a7
      sb [of n] mb ub b(2) [of n] b(1) [of "Suc n"] b4 b5 b7
    by (intro conjI) (assumption | simp)+
qed

theorem tree_size_tapers_witness:
  "siz (updates (\<lambda>_. (env0, sketch0)) (Suc 0) trunk0) = 397 / 400
   \<and> siz (updates (\<lambda>_. (env0, sketch0)) (Suc 0) trunk0) < siz (updates (\<lambda>_. (env0, sketch0)) 0 trunk0)
   \<and> rsiz (updates (\<lambda>_. (env0, sketch0)) (Suc 0) trunk0) = 100
   \<and> (\<lambda>m. siz (updates (\<lambda>_. (env0, sketch0)) m trunk0)) \<longlonglongrightarrow> 0
   \<and> (\<lambda>m. rsiz (updates (\<lambda>_. (env0, sketch0)) (Suc m) trunk0)) \<longlonglongrightarrow> 0
   \<and> siz (updates_p0 (\<lambda>_. (env0, sketch0_p0)) (Suc 0) trunk0_p0) = 397 / 400
   \<and> siz (updates_p0 (\<lambda>_. (env0, sketch0_p0)) (Suc 0) trunk0_p0)
       < siz (updates_p0 (\<lambda>_. (env0, sketch0_p0)) 0 trunk0_p0)
   \<and> (\<lambda>m. siz (updates_p0 (\<lambda>_. (env0, sketch0_p0)) m trunk0_p0)) \<longlonglongrightarrow> 0
   \<and> (\<lambda>m. asiz (updates_p0 (\<lambda>_. (env0, sketch0_p0)) m trunk0_p0)
            * siz (updates_p0 (\<lambda>_. (env0, sketch0_p0)) m trunk0_p0)) \<longlonglongrightarrow> 0"
proof -
  have h: "tag trunk0 \<in> {TRUNK, BRANCH, TWIG}" "0 \<le> siz trunk0"
    "\<forall>k. 0 \<le> rnd (fst (env0, sketch0)) (Suc (seed (snd (env0, sketch0))))
        \<and> rnd (fst (env0, sketch0)) (Suc (seed (snd (env0, sketch0)))) < 1"
    "tag trunk0_p0 \<in> {TRUNK, BRANCH, TWIG}" "0 \<le> siz trunk0_p0"
    "\<forall>k. 0 \<le> rnd (fst (env0, sketch0_p0))
               (taper_index_p0 (fst (env0, sketch0_p0)) (tag trunk0_p0) (snd (env0, sketch0_p0)))
        \<and> rnd (fst (env0, sketch0_p0))
               (taper_index_p0 (fst (env0, sketch0_p0)) (tag trunk0_p0) (snd (env0, sketch0_p0))) < 1"
    by (simp_all add: trunk0_def trunk0_p0_def new_Particle_fields new_Particle_p0_fields env0_def)
  have s: "siz trunk0 = 1" "asiz trunk0 = 100" "siz trunk0_p0 = 1"
    by (simp_all add: trunk0_def trunk0_p0_def new_Particle_fields new_Particle_p0_fields)
  have r: "rnd env0 i = 1 / 2" for i by (simp add: env0_def)
  show ?thesis
    using tree_size_tapers [OF h, of 0 "1 / 2"] s r
    by (simp add: p_lerp_def)
qed

section \<open>Particles die\<close>

lemma decay_reaches:
  fixes a s c t :: real
  assumes "0 \<le> s" and "c < 1" and "0 \<le> c" and "0 < t"
  shows "\<exists>n. \<forall>x. 0 \<le> x \<and> x \<le> s * c ^ n \<longrightarrow> a * x < t"
proof (cases "0 < a \<and> 0 < s")
  case False
  then consider "a \<le> 0" | "s = 0" using assms(1) by force
  then show ?thesis
  proof cases
    case 1
    have "\<forall>x. 0 \<le> x \<and> x \<le> s * c ^ 0 \<longrightarrow> a * x < t"
    proof (intro allI impI)
      fix x :: real assume "0 \<le> x \<and> x \<le> s * c ^ 0"
      then have "a * x \<le> 0" using 1 by (simp add: mult_nonpos_nonneg)
      then show "a * x < t" using assms(4) by simp
    qed
    then show ?thesis by blast
  next
    case 2
    have "\<forall>x. 0 \<le> x \<and> x \<le> s * c ^ 0 \<longrightarrow> a * x < t"
      using 2 assms(4) by auto
    then show ?thesis by blast
  qed
next
  case True
  then have pos: "0 < a * s" by simp
  then have "0 < t / (a * s)" using assms(4) by simp
  then obtain n where n: "c ^ n < t / (a * s)"
    using real_arch_pow_inv [OF _ assms(2)] by blast
  have "\<forall>x. 0 \<le> x \<and> x \<le> s * c ^ n \<longrightarrow> a * x < t"
  proof (intro allI impI)
    fix x :: real assume x: "0 \<le> x \<and> x \<le> s * c ^ n"
    have "a * x \<le> a * (s * c ^ n)" using x True by (intro mult_left_mono) simp_all
    also have "\<dots> = (a * s) * c ^ n" by simp
    also have "\<dots> < (a * s) * (t / (a * s))" using n pos by (intro mult_strict_left_mono)
    also have "\<dots> = t" using True by simp
    finally show "a * x < t" .
  qed
  then show ?thesis by blast
qed

lemma tree_dies:
  assumes "tag p \<noteq> FLOWER" and "0 \<le> siz p"
    and "\<forall>k. eps \<le> rnd (fst (ctx k)) (Suc (seed (snd (ctx k))))
             \<and> rnd (fst (ctx k)) (Suc (seed (snd (ctx k)))) < 1"
    and "0 < eps"
  shows "\<exists>n. dies_at ctx n p"
proof -
  let ?s = "\<lambda>m. siz (updates ctx m p)"
  let ?u = "\<lambda>k. rnd (fst (ctx k)) (Suc (seed (snd (ctx k))))"
  have e1: "eps < 1" using assms(3) by (meson le_less_trans)
  have c: "1 - eps * 0.015 < 1" "0 \<le> 1 - eps * 0.015" using assms(4) e1 by simp_all
  have step: "?s (Suc m) = p_lerp (?s m) 0 (?u m * 0.015)" for m
    by (rule updates_siz_step [OF assms(1)])
  have s0: "0 \<le> ?s 0" using assms(2) by simp
  have unit0: "\<forall>k. 0 \<le> ?u k \<and> ?u k < 1"
    using assms(3,4) by (meson less_eq_real_def order_trans)
  obtain n where n: "\<forall>x. 0 \<le> x \<and> x \<le> siz p * (1 - eps * 0.015) ^ n \<longrightarrow> asiz p * x < 0.1"
    using decay_reaches [OF assms(2) c, of "0.1" "asiz p"] by auto
  have k: "tag (updates ctx n p) \<noteq> FLOWER" "asiz (updates ctx n p) = asiz p"
    using updates_tree_keeps [OF assms(1), of ctx n] assms(1) by simp_all
  have "0 \<le> ?s n" by (rule taper_sequence(1) [of ?s ?u, OF step s0 unit0])
  moreover have "?s n \<le> siz p * (1 - eps * 0.015) ^ n"
    using taper_decay(1) [of ?s ?u, OF step s0 assms(3,4), of n] by simp
  ultimately have "asiz p * ?s n < 0.1" using n by blast
  then have "dies_at ctx n p"
    using k(2) by (simp add: dies_at_def update_tree(6) [OF k(1)])
  then show ?thesis ..
qed

lemma tree_dies_p0:
  assumes "tag q \<noteq> FLOWER" and "0 \<le> siz q"
    and "\<forall>k. eps \<le> rnd (fst (ctx k)) (taper_index_p0 (fst (ctx k)) (tag q) (snd (ctx k)))
             \<and> rnd (fst (ctx k)) (taper_index_p0 (fst (ctx k)) (tag q) (snd (ctx k))) < 1"
    and "0 < eps"
  shows "\<exists>n. dies_at_p0 ctx n q"
proof -
  let ?s = "\<lambda>m. siz (updates_p0 ctx m q)"
  let ?u = "\<lambda>k. rnd (fst (ctx k)) (taper_index_p0 (fst (ctx k)) (tag q) (snd (ctx k)))"
  have e1: "eps < 1" using assms(3) by (meson le_less_trans)
  have c: "1 - eps * 0.015 < 1" "0 \<le> 1 - eps * 0.015" using assms(4) e1 by simp_all
  have step: "?s (Suc m) = p_lerp (?s m) 0 (?u m * 0.015)" for m
    by (rule updates_p0_siz_step [OF assms(1)])
  have s0: "0 \<le> ?s 0" using assms(2) by simp
  have unit0: "\<forall>k. 0 \<le> ?u k \<and> ?u k < 1"
    using assms(3,4) by (meson less_eq_real_def order_trans)
  obtain n where n: "\<forall>x. 0 \<le> x \<and> x \<le> siz q * (1 - eps * 0.015) ^ n \<longrightarrow> asiz q * x < 0.5"
    using decay_reaches [OF assms(2) c, of "0.5" "asiz q"] by auto
  have k: "tag (updates_p0 ctx n q) \<noteq> FLOWER" "asiz (updates_p0 ctx n q) = asiz q"
    using updates_p0_tree_keeps [OF assms(1), of ctx n] assms(1) by simp_all
  have "0 \<le> ?s (Suc n)" by (rule taper_sequence(1) [of ?s ?u, OF step s0 unit0])
  moreover have "?s (Suc n) \<le> ?s n"
    by (rule taper_sequence(2) [of ?s ?u, OF step s0 unit0])
  moreover have "?s n \<le> siz q * (1 - eps * 0.015) ^ n"
    using taper_decay(1) [of ?s ?u, OF step s0 assms(3,4), of n] by simp
  ultimately have "asiz q * ?s (Suc n) < 0.5" using n by (meson order_trans)
  then have "dies_at_p0 ctx n q"
    using k(2) by (simp add: dies_at_p0_def update_p0_tree(5) [OF k(1)])
  then show ?thesis ..
qed

lemma zero_draws_keep_siz:
  "tag p \<noteq> FLOWER \<Longrightarrow> siz (updates (\<lambda>_. (env_zero, st)) n p) = siz p"
  "tag q \<noteq> FLOWER \<Longrightarrow> siz (updates_p0 (\<lambda>_. (env_zero, sq)) n q) = siz q"
proof -
  have r: "rnd env_zero i = 0" for i by (simp add: env_zero_def)
  show "tag p \<noteq> FLOWER \<Longrightarrow> siz (updates (\<lambda>_. (env_zero, st)) n p) = siz p"
  proof (induction n)
    case 0
    show ?case by simp
  next
    case (Suc n)
    show ?case
      unfolding updates_siz_step [OF Suc.prems] using Suc.IH [OF Suc.prems]
      by (simp add: r p_lerp_def)
  qed
  show "tag q \<noteq> FLOWER \<Longrightarrow> siz (updates_p0 (\<lambda>_. (env_zero, sq)) n q) = siz q"
  proof (induction n)
    case 0
    show ?case by simp
  next
    case (Suc n)
    show ?case
      unfolding updates_p0_siz_step [OF Suc.prems] using Suc.IH [OF Suc.prems]
      by (simp add: r p_lerp_def)
  qed
qed

lemma new_Particle_trunk_spd:
  "spd (fst (new_Particle e sx sy sc ss sd sl ls TRUNK s)) = 2"
  "spd (fst (new_Particle_p0 e sx sy sc ss sd sl ls TRUNK s)) = 2"
  by (simp_all add: new_Particle_def new_Particle_p0_def Let_def split_beta)

lemma zero_draws_never_die:
  "\<not> dies_at (\<lambda>_. (env_zero, sketch0)) n trunk0"
  "\<not> dies_at_p0 (\<lambda>_. (env_zero, sketch0_p0)) n trunk0_p0"
proof -
  have t: "tag trunk0 \<noteq> FLOWER" "asiz trunk0 = 100" "siz trunk0 = 1" "spd trunk0 = 2"
    "tag trunk0_p0 \<noteq> FLOWER" "asiz trunk0_p0 = 50" "siz trunk0_p0 = 1" "spd trunk0_p0 = 2"
    by (simp_all add: trunk0_def trunk0_p0_def new_Particle_fields new_Particle_p0_fields
        new_Particle_trunk_spd)
  let ?a = "updates (\<lambda>_. (env_zero, sketch0)) n trunk0"
  let ?b = "updates_p0 (\<lambda>_. (env_zero, sketch0_p0)) n trunk0_p0"
  have ka: "tag ?a \<noteq> FLOWER" "asiz ?a = 100" "spd ?a = 2" "siz ?a = 1"
    using updates_tree_keeps [OF t(1), of "\<lambda>_. (env_zero, sketch0)" n] t
      zero_draws_keep_siz(1) [OF t(1), of sketch0 n] by simp_all
  have kb: "tag ?b \<noteq> FLOWER" "asiz ?b = 50" "spd ?b = 2" "siz ?b = 1"
    using updates_p0_tree_keeps [OF t(5), of "\<lambda>_. (env_zero, sketch0_p0)" n] t
      zero_draws_keep_siz(2) [OF t(5), of sketch0_p0 n] by simp_all
  show "\<not> dies_at (\<lambda>_. (env_zero, sketch0)) n trunk0"
    using ka by (simp add: dies_at_def update_tree(6))
  have "siz (updates_p0 (\<lambda>_. (env_zero, sketch0_p0)) (Suc n) trunk0_p0) = 1"
    using zero_draws_keep_siz(2) [OF t(5), of sketch0_p0 "Suc n"] t by simp
  then have "siz (fst (snd (update_p0 env_zero ?b sketch0_p0))) = 1" by simp
  then show "\<not> dies_at_p0 (\<lambda>_. (env_zero, sketch0_p0)) n trunk0_p0"
    using kb by (simp add: dies_at_p0_def update_p0_tree(5))
qed

lemma updates_flower_tag: "tag p = FLOWER \<Longrightarrow> tag (updates ctx n p) = FLOWER"
  by (induction n) (simp_all add: update_on_flower update_flower_keeps)

lemma flower_never_dies: "tag p = FLOWER \<Longrightarrow> \<not> dies_at ctx n p"
  using updates_flower_tag [of p ctx n] by (simp add: dies_at_def update_on_flower)

lemma update_p0_flower_step:
  assumes "tag q = FLOWER"
  shows "fst (update_p0 e q st) = (siz q + 0.1 \<ge> 1)"
    and "siz (fst (snd (update_p0 e q st))) = (if siz q + 0.1 \<ge> 1 then 1 else siz q + 0.1)"
  using assms by (simp_all add: update_p0_def Let_def)

lemma updates_p0_flower_grows:
  assumes "tag q = FLOWER" and "siz q = 0"
  shows "n \<le> 9 \<Longrightarrow> siz (updates_p0 ctx n q) = real n / 10"
proof (induction n)
  case 0
  show ?case using assms(2) by simp
next
  case (Suc n)
  have t: "tag (updates_p0 ctx n q) = FLOWER"
    using updates_p0_flower [OF assms(1), of ctx n] by simp
  have s: "siz (updates_p0 ctx n q) = real n / 10" using Suc by simp
  have "real n / 10 + 0.1 < 1" using Suc.prems by simp
  then show ?case
    by (simp add: update_p0_flower_step(2) [OF t] s field_simps)
qed

lemma flower_dies_p0:
  assumes "tag q = FLOWER" and "siz q = 0"
  shows "dies_at_p0 ctx 9 q"
proof -
  have t: "tag (updates_p0 ctx 9 q) = FLOWER"
    using updates_p0_flower [OF assms(1), of ctx 9] by simp
  have "siz (updates_p0 ctx 9 q) = 9 / 10"
    using updates_p0_flower_grows [OF assms, of 9 ctx] by simp
  then show ?thesis
    by (simp add: dies_at_p0_def update_p0_flower_step(1) [OF t])
qed

lemma update_dead_parts:
  "fst (update e p st) \<Longrightarrow> parts (snd (snd (update e p st))) = parts st"
  by (auto simp: update_def Let_def split_beta split: if_splits)

lemma update_p0_dead_parts:
  "fst (update_p0 e p st) \<Longrightarrow> parts (snd (snd (update_p0 e p st))) = parts st"
  by (auto simp: update_p0_def Let_def split_beta grow_p0_parts split: if_splits)

lemma draw_step_dead:
  "fst (update e (parts st ! i) st) \<Longrightarrow>
     parts (fst (draw_step e i (st, bg, fg))) = splice (parts st) i"
  using update_dead_parts [of e "parts st ! i" st]
  by (simp add: draw_step.simps Let_def split_beta)

lemma draw_step_p0_dead:
  "fst (update_p0 e (parts st ! i) st) \<Longrightarrow> parts (draw_step_p0 e i st) = splice (parts st) i"
  using update_p0_dead_parts [of e "parts st ! i" st]
  by (simp add: draw_step_p0_def Let_def split_beta)

text \<open>
  Claim C1, as the source has it. Write \<open>u k\<close> for the unit draw that call number \<open>k\<close> of
  the \<^verbatim>\<open>update\<close> of a particle uses in \<^verbatim>\<open>p.random(0.015)\<close>, the taper of its size. A
  particle tagged \<open>TRUNK\<close>, \<open>BRANCH\<close> or \<open>TWIG\<close> dies once its size has tapered far enough:
  when these draws are all at least some \<open>eps > 0\<close> (and below 1, as every draw of
  \<^verbatim>\<open>p.random\<close> is), some call of its \<^verbatim>\<open>update\<close> returns true, in both revisions; nothing
  is asked of the other draws. In \<^verbatim>\<open>part_000\<close> a flower dies as well: built with size 0,
  its \<^verbatim>\<open>update\<close> returns true no later than the eleventh call. In \<^verbatim>\<open>GenerativeTree.tsx\<close> a
  flower never dies: every call of its \<^verbatim>\<open>update\<close> returns false. In both revisions the
  iteration of the draw loop in which \<^verbatim>\<open>update\<close> returns true splices that particle out of
  \<^verbatim>\<open>parts\<close>.
\<close>

theorem particles_die:
  fixes ctx :: "nat \<Rightarrow> env \<times> sketch" and ctxq :: "nat \<Rightarrow> env \<times> sketch_p0"
    and p :: Particle and q :: Particle_p0
  defines "u \<equiv> \<lambda>k. rnd (fst (ctx k)) (Suc (seed (snd (ctx k))))"
    and "v \<equiv> \<lambda>k. rnd (fst (ctxq k)) (taper_index_p0 (fst (ctxq k)) (tag q) (snd (ctxq k)))"
  assumes "tag p \<in> {TRUNK, BRANCH, TWIG}" and "0 \<le> siz p" and "\<forall>k. eps \<le> u k \<and> u k < 1"
    and "tag q \<in> {TRUNK, BRANCH, TWIG}" and "0 \<le> siz q" and "\<forall>k. eps \<le> v k \<and> v k < 1"
    and "0 < eps"
    and "tag g = FLOWER" and "siz g = 0" and "tag f = FLOWER"
  shows "(\<exists>n. dies_at ctx n p)
       \<and> (\<exists>n. dies_at_p0 ctxq n q)
       \<and> siz (updates ctx (Suc m) p) = p_lerp (siz (updates ctx m p)) 0 (u m * 0.015)
       \<and> siz (updates_p0 ctxq (Suc m) q) = p_lerp (siz (updates_p0 ctxq m q)) 0 (v m * 0.015)
       \<and> (\<exists>n\<le>10. dies_at_p0 ctxg n g)
       \<and> (\<forall>n. \<not> dies_at ctxf n f)
       \<and> (fst (update e (parts st ! i) st)
            \<longrightarrow> parts (fst (draw_step e i (st, bg, fg))) = splice (parts st) i)
       \<and> (fst (update_p0 e (parts sq ! j) sq)
            \<longrightarrow> parts (draw_step_p0 e j sq) = splice (parts sq) j)"
proof -
  have tp: "tag p \<noteq> FLOWER" and tq: "tag q \<noteq> FLOWER" using assms(3,6) by auto
  have a: "\<exists>n. dies_at ctx n p"
    by (rule tree_dies [OF tp assms(4) assms(5) [unfolded u_def] assms(9)])
  have b: "\<exists>n. dies_at_p0 ctxq n q"
    by (rule tree_dies_p0 [OF tq assms(7) assms(8) [unfolded v_def] assms(9)])
  have sa: "siz (updates ctx (Suc m) p) = p_lerp (siz (updates ctx m p)) 0 (u m * 0.015)"
    unfolding u_def by (rule updates_siz_step [OF tp])
  have sb: "siz (updates_p0 ctxq (Suc m) q) = p_lerp (siz (updates_p0 ctxq m q)) 0 (v m * 0.015)"
    unfolding v_def by (rule updates_p0_siz_step [OF tq])
  have "dies_at_p0 ctxg 9 g" by (rule flower_dies_p0 [OF assms(10,11)])
  then have c: "\<exists>n\<le>10. dies_at_p0 ctxg n g" by (intro exI [of _ 9]) simp
  have d: "\<forall>n. \<not> dies_at ctxf n f" using flower_never_dies [OF assms(12)] by simp
  show ?thesis using a b sa sb c d draw_step_dead draw_step_p0_dead by blast
qed

theorem particles_die_witness:
  "(\<exists>n. dies_at (\<lambda>_. (env0, sketch0)) n trunk0)
   \<and> (\<exists>n. dies_at_p0 (\<lambda>_. (env0, sketch0_p0)) n trunk0_p0)
   \<and> (\<exists>n\<le>10. dies_at_p0 (\<lambda>_. (env0, sketch0_p0)) n flower0_p0)
   \<and> \<not> dies_at (\<lambda>_. (env0, sketch0)) 7 flower0
   \<and> fst (update env0 speck0 (sketch0\<lparr>parts := [speck0]\<rparr>))
   \<and> parts (fst (draw_step env0 0 (sketch0\<lparr>parts := [speck0]\<rparr>, [], []))) = []
   \<and> fst (update_p0 env0 speck0_p0 (sketch0_p0\<lparr>parts := [speck0_p0]\<rparr>))
   \<and> parts (draw_step_p0 env0 0 (sketch0_p0\<lparr>parts := [speck0_p0]\<rparr>)) = []"
proof -
  have h: "tag trunk0 \<in> {TRUNK, BRANCH, TWIG}" "0 \<le> siz trunk0"
    "\<forall>k. 1 / 2 \<le> rnd (fst (env0, sketch0)) (Suc (seed (snd (env0, sketch0))))
        \<and> rnd (fst (env0, sketch0)) (Suc (seed (snd (env0, sketch0)))) < 1"
    "tag trunk0_p0 \<in> {TRUNK, BRANCH, TWIG}" "0 \<le> siz trunk0_p0"
    "\<forall>k. 1 / 2 \<le> rnd (fst (env0, sketch0_p0))
               (taper_index_p0 (fst (env0, sketch0_p0)) (tag trunk0_p0) (snd (env0, sketch0_p0)))
        \<and> rnd (fst (env0, sketch0_p0))
               (taper_index_p0 (fst (env0, sketch0_p0)) (tag trunk0_p0) (snd (env0, sketch0_p0))) < 1"
    "(0::real) < 1 / 2"
    "tag flower0_p0 = FLOWER" "siz flower0_p0 = 0" "tag flower0 = FLOWER"
    by (simp_all add: trunk0_def trunk0_p0_def flower0_def flower0_p0_def
        new_Particle_fields new_Particle_p0_fields env0_def)
  have s: "tag speck0 \<noteq> FLOWER" "asiz speck0 = 1 / 20" "siz speck0 = 1"
    "tag speck0_p0 \<noteq> FLOWER" "asiz speck0_p0 = 1 / 20" "siz speck0_p0 = 1"
    by (simp_all add: speck0_def speck0_p0_def new_Particle_fields new_Particle_p0_fields)
  have u: "fst (update env0 speck0 (sketch0\<lparr>parts := [speck0]\<rparr>))"
    using s by (simp add: update_tree(6))
  have v: "fst (update_p0 env0 speck0_p0 (sketch0_p0\<lparr>parts := [speck0_p0]\<rparr>))"
    using s by (simp add: update_p0_tree(1,5) p_lerp_zero env0_def)
  show ?thesis
    using particles_die [OF h, where ctxg = "\<lambda>_. (env0, sketch0_p0)"
        and ctxf = "\<lambda>_. (env0, sketch0)" and e = env0 and i = 0 and j = 0
        and st = "sketch0\<lparr>parts := [speck0]\<rparr>" and sq = "sketch0_p0\<lparr>parts := [speck0_p0]\<rparr>"
        and bg = "[]" and fg = "[]"]
      u v
    by (simp add: splice_def)
qed

text \<open>
  Claim C1 as stated fails for the flowers of \<^verbatim>\<open>GenerativeTree.tsx\<close>: no call of
  \<^verbatim>\<open>update\<close> on a flower ever returns true, so the draw loop never splices it out. And
  the condition on the taper draws cannot be dropped: while the generator keeps returning
  0, a trunk keeps its size, and no call of its \<^verbatim>\<open>update\<close> returns true, in either
  revision.
\<close>

theorem not_every_particle_dies:
  "\<not> (\<exists>n. dies_at (\<lambda>_. (env0, sketch0)) n flower0)
   \<and> \<not> (\<exists>n. dies_at (\<lambda>_. (env_zero, sketch0)) n trunk0)
   \<and> \<not> (\<exists>n. dies_at_p0 (\<lambda>_. (env_zero, sketch0_p0)) n trunk0_p0)"
  using flower_never_dies [of flower0 "\<lambda>_. (env0, sketch0)"] zero_draws_never_die
  by (simp add: flower0_def new_Particle_fields)

section \<open>Blooming\<close>

lemma mset_splice: "i < length xs \<Longrightarrow> mset xs = mset (splice xs i) + {#xs ! i#}"
proof -
  assume i: "i < length xs"
  have "xs = take i xs @ xs ! i # drop (Suc i) xs" using i by (simp add: id_take_nth_drop)
  then have "mset xs = mset (take i xs @ xs ! i # drop (Suc i) xs)" by simp
  then show ?thesis by (simp add: splice_def)
qed

lemma length_splice: "i < length xs \<Longrightarrow> length (splice xs i) = length xs - 1"
  by (simp add: splice_def)

lemma spawnFlower_effect:
  "\<exists>f sd. spawnFlower e x y h st = st\<lparr>parts := parts st @ [f], seed := sd\<rparr>
      \<and> tag f = FLOWER \<and> pos f = (x, y)"
proof -
  let ?c = "p_random_choice e PALETTE_flowers (seed st)"
  let ?n = "new_Particle e x y (fst ?c) (p_map h 0.05 0.3 10 35 True) 0 0 0 FLOWER (snd ?c)"
  have "spawnFlower e x y h st = st\<lparr>parts := parts st @ [fst ?n], seed := snd ?n\<rparr>"
    by (simp add: spawnFlower_def Let_def split_beta)
  moreover have "tag (fst ?n) = FLOWER" "pos (fst ?n) = (x, y)"
    by (simp_all add: new_Particle_fields)
  ultimately show ?thesis by blast
qed

lemma spawnFlower_p0_effect:
  "\<exists>f sd. spawnFlower_p0 e x y st = st\<lparr>parts := parts st @ [f], seed := sd\<rparr>
      \<and> tag f = FLOWER \<and> pos f = (x, y)"
proof -
  let ?c = "p_random_choice e PALETTE_flowers_p0 (seed st)"
  let ?z = "p_random_range e 15 25 (snd ?c)"
  let ?n = "new_Particle_p0 e x y (fst ?c) (fst ?z) 0 0 0 FLOWER (snd ?z)"
  have "spawnFlower_p0 e x y st = st\<lparr>parts := parts st @ [fst ?n], seed := snd ?n\<rparr>"
    by (simp add: spawnFlower_p0_def Let_def split_beta)
  moreover have "tag (fst ?n) = FLOWER" "pos (fst ?n) = (x, y)"
    by (simp_all add: new_Particle_p0_fields)
  ultimately show ?thesis by blast
qed

lemma paint_search_effect:
  "i \<le> length (treePositions st) \<Longrightarrow>
   \<exists>fl tps sd. paint_search e h pr i st = st\<lparr>parts := parts st @ fl, treePositions := tps, seed := sd\<rparr>
      \<and> (\<forall>f \<in> set fl. tag f = FLOWER \<and> near pr (pos f) 30)
      \<and> mset (treePositions st) = mset tps + mset (map pos fl)
      \<and> length fl \<le> 1"
proof (induction i)
  case 0
  have "paint_search e h pr 0 st
      = st\<lparr>parts := parts st @ [], treePositions := treePositions st, seed := seed st\<rparr>"
    by simp
  then show ?case by (intro exI [of _ "[]"] exI [of _ "treePositions st"] exI [of _ "seed st"]) simp
next
  case (Suc i)
  let ?pt = "treePositions st ! i"
  show ?case
  proof (cases "near pr ?pt 30")
    case True
    obtain f sd where f: "spawnFlower e (fst ?pt) (snd ?pt) h st = st\<lparr>parts := parts st @ [f], seed := sd\<rparr>"
      "tag f = FLOWER" "pos f = ?pt"
      using spawnFlower_effect [of e "fst ?pt" "snd ?pt" h st] by auto
    have r: "paint_search e h pr (Suc i) st
        = st\<lparr>parts := parts st @ [f], treePositions := splice (treePositions st) i, seed := sd\<rparr>"
      using True f(1) by (simp add: Let_def)
    have m: "mset (treePositions st) = mset (splice (treePositions st) i) + mset (map pos [f])"
      using mset_splice [of i "treePositions st"] Suc.prems f(3) by simp
    show ?thesis
      using r m f(2,3) True
      by (intro exI [of _ "[f]"] exI [of _ "splice (treePositions st) i"] exI [of _ sd]) simp
  next
    case False
    then have "paint_search e h pr (Suc i) st = paint_search e h pr i st" by (simp add: Let_def)
    then show ?thesis using Suc by simp
  qed
qed

lemma paint_fold_effect:
  "\<exists>fl tps sd. foldl (paint_probe e h prev x y steps) st ss
        = st\<lparr>parts := parts st @ fl, treePositions := tps, seed := sd\<rparr>
      \<and> (\<forall>f \<in> set fl. tag f = FLOWER \<and> (\<exists>s \<in> set ss. near (probe prev x y steps s) (pos f) 30))
      \<and> mset (treePositions st) = mset tps + mset (map pos fl)
      \<and> length fl \<le> length ss"
proof (induction ss arbitrary: st)
  case Nil
  have "foldl (paint_probe e h prev x y steps) st []
      = st\<lparr>parts := parts st @ [], treePositions := treePositions st, seed := seed st\<rparr>"
    by simp
  then show ?case by (intro exI [of _ "[]"] exI [of _ "treePositions st"] exI [of _ "seed st"]) simp
next
  case (Cons s ss)
  obtain fl1 tps1 sd1 where a:
    "paint_probe e h prev x y steps st s
       = st\<lparr>parts := parts st @ fl1, treePositions := tps1, seed := sd1\<rparr>"
    "\<forall>f \<in> set fl1. tag f = FLOWER \<and> near (probe prev x y steps s) (pos f) 30"
    "mset (treePositions st) = mset tps1 + mset (map pos fl1)"
    "length fl1 \<le> 1"
    using paint_search_effect [of "length (treePositions st)" st e h "probe prev x y steps s"]
    unfolding paint_probe_def by auto
  let ?st1 = "st\<lparr>parts := parts st @ fl1, treePositions := tps1, seed := sd1\<rparr>"
  obtain fl2 tps2 sd2 where b:
    "foldl (paint_probe e h prev x y steps) ?st1 ss
       = ?st1\<lparr>parts := parts ?st1 @ fl2, treePositions := tps2, seed := sd2\<rparr>"
    "\<forall>f \<in> set fl2. tag f = FLOWER \<and> (\<exists>s \<in> set ss. near (probe prev x y steps s) (pos f) 30)"
    "mset (treePositions ?st1) = mset tps2 + mset (map pos fl2)"
    "length fl2 \<le> length ss"
    using Cons [of ?st1] by auto
  have r: "foldl (paint_probe e h prev x y steps) st (s # ss)
      = st\<lparr>parts := parts st @ (fl1 @ fl2), treePositions := tps2, seed := sd2\<rparr>"
    using a(1) b(1) by simp
  have m: "mset (treePositions st) = mset tps2 + mset (map pos (fl1 @ fl2))"
    using a(3) b(3) by simp
  have n: "\<forall>f \<in> set (fl1 @ fl2). tag f = FLOWER
      \<and> (\<exists>s' \<in> set (s # ss). near (probe prev x y steps s') (pos f) 30)"
    using a(2) b(2) by auto
  have l: "length (fl1 @ fl2) \<le> length (s # ss)" using a(4) b(4) by simp
  show ?case
    using r m n l by (intro exI [of _ "fl1 @ fl2"] exI [of _ tps2] exI [of _ sd2]) blast
qed

lemma paint_effect:
  "\<exists>fl tps sd. paint e h v x y st = st\<lparr>parts := parts st @ fl, treePositions := tps, seed := sd\<rparr>
      \<and> (\<forall>f \<in> set fl. tag f = FLOWER
            \<and> (\<exists>prev s. prevIndexPos st = Some prev \<and> s \<le> nat \<lceil>v / 10\<rceil>
                  \<and> near (probe prev x y (nat \<lceil>v / 10\<rceil>) s) (pos f) 30))
      \<and> mset (treePositions st) = mset tps + mset (map pos fl)
      \<and> length fl \<le> length (probe_steps v)
      \<and> (prevIndexPos st = None \<or> treePositions st = [] \<longrightarrow> fl = [])"
proof (cases "prevIndexPos st")
  case None
  have "paint e h v x y st
      = st\<lparr>parts := parts st @ [], treePositions := treePositions st, seed := seed st\<rparr>"
    using None by (simp add: paint_def)
  then show ?thesis by (intro exI [of _ "[]"] exI [of _ "treePositions st"] exI [of _ "seed st"]) simp
next
  case (Some prev)
  show ?thesis
  proof (cases "treePositions st = []")
    case True
    have "paint e h v x y st
        = st\<lparr>parts := parts st @ [], treePositions := treePositions st, seed := seed st\<rparr>"
      using True Some by (simp add: paint_def)
    then show ?thesis
      by (intro exI [of _ "[]"] exI [of _ "treePositions st"] exI [of _ "seed st"]) simp
  next
    case False
    obtain fl tps sd where a:
      "foldl (paint_probe e h prev x y (nat \<lceil>v / 10\<rceil>)) st (probe_steps v)
         = st\<lparr>parts := parts st @ fl, treePositions := tps, seed := sd\<rparr>"
      "\<forall>f \<in> set fl. tag f = FLOWER
         \<and> (\<exists>s \<in> set (probe_steps v). near (probe prev x y (nat \<lceil>v / 10\<rceil>) s) (pos f) 30)"
      "mset (treePositions st) = mset tps + mset (map pos fl)"
      "length fl \<le> length (probe_steps v)"
      using paint_fold_effect [of e h prev x y "nat \<lceil>v / 10\<rceil>" st "probe_steps v"] by auto
    have r: "paint e h v x y st = st\<lparr>parts := parts st @ fl, treePositions := tps, seed := sd\<rparr>"
      using a(1) Some False by (simp add: paint_def)
    have n: "\<forall>f \<in> set fl. tag f = FLOWER
        \<and> (\<exists>prev s. prevIndexPos st = Some prev \<and> s \<le> nat \<lceil>v / 10\<rceil>
              \<and> near (probe prev x y (nat \<lceil>v / 10\<rceil>) s) (pos f) 30)"
    proof
      fix f assume "f \<in> set fl"
      then obtain s where s: "tag f = FLOWER" "s \<in> set (probe_steps v)"
        "near (probe prev x y (nat \<lceil>v / 10\<rceil>) s) (pos f) 30"
        using a(2) by blast
      then have "s \<le> nat \<lceil>v / 10\<rceil>" by (auto simp: probe_steps_def)
      then show "tag f = FLOWER
        \<and> (\<exists>prev s. prevIndexPos st = Some prev \<and> s \<le> nat \<lceil>v / 10\<rceil>
              \<and> near (probe prev x y (nat \<lceil>v / 10\<rceil>) s) (pos f) 30)"
        using Some s by blast
    qed
    show ?thesis
      using r n a(3,4) Some False by (intro exI [of _ fl] exI [of _ tps] exI [of _ sd]) simp
  qed
qed

section \<open>Magnifying\<close>

lemma closest_flower_spec:
  "closest_flower x y i ps (cd, cf) = (d', r') \<Longrightarrow>
     (r' = cf \<and> d' = cd \<and> (\<forall>k<length ps. tag (ps ! k) = FLOWER \<longrightarrow> \<not> dist_to x y (ps ! k) < cd))
   \<or> (\<exists>k<length ps. r' = Some (i + k) \<and> tag (ps ! k) = FLOWER \<and> d' = dist_to x y (ps ! k)
          \<and> d' < cd
          \<and> (\<forall>j<length ps. tag (ps ! j) = FLOWER \<longrightarrow>
                d' \<le> dist_to x y (ps ! j) \<and> (j < k \<longrightarrow> d' < dist_to x y (ps ! j))))"
proof (induction ps arbitrary: i cd cf)
  case Nil
  then show ?case by simp
next
  case (Cons p ps)
  show ?case
  proof (cases "tag p = FLOWER \<and> dist_to x y p < cd")
    case True
    then have "closest_flower x y (Suc i) ps (dist_to x y p, Some i) = (d', r')"
      using Cons.prems by (simp add: Let_def)
    from Cons.IH [OF this] True show ?thesis
      by (fastforce simp: All_less_Suc2 Ex_less_Suc2)
  next
    case False
    then have "closest_flower x y (Suc i) ps (cd, cf) = (d', r')"
      using Cons.prems by (auto simp: Let_def split: if_splits)
    from Cons.IH [OF this] consider
      (unchanged) "r' = cf" "d' = cd"
        "\<forall>k<length ps. tag (ps ! k) = FLOWER \<longrightarrow> \<not> dist_to x y (ps ! k) < cd"
      | (found) k where "k < length ps" "r' = Some (Suc i + k)" "tag (ps ! k) = FLOWER"
        "d' = dist_to x y (ps ! k)" "d' < cd"
        "\<forall>j<length ps. tag (ps ! j) = FLOWER \<longrightarrow>
            d' \<le> dist_to x y (ps ! j) \<and> (j < k \<longrightarrow> d' < dist_to x y (ps ! j))"
      by blast
    then show ?thesis
    proof cases
      case unchanged
      have "\<forall>k<length (p # ps). tag ((p # ps) ! k) = FLOWER
          \<longrightarrow> \<not> dist_to x y ((p # ps) ! k) < cd"
        using unchanged(3) False by (simp add: All_less_Suc2)
      then show ?thesis using unchanged(1,2) by blast
    next
      case found
      have a: "Suc k < length (p # ps)" "r' = Some (i + Suc k)"
        "tag ((p # ps) ! Suc k) = FLOWER" "d' = dist_to x y ((p # ps) ! Suc k)"
        using found(1-4) by simp_all
      have b: "tag p = FLOWER \<longrightarrow> d' < dist_to x y p \<and> d' \<le> dist_to x y p"
        using False found(5) by auto
      have c: "\<forall>j<length (p # ps). tag ((p # ps) ! j) = FLOWER \<longrightarrow>
          d' \<le> dist_to x y ((p # ps) ! j) \<and> (j < Suc k \<longrightarrow> d' < dist_to x y ((p # ps) ! j))"
        using found(6) b by (simp add: All_less_Suc2)
      show ?thesis using a c found(5) by blast
    qed
  qed
qed

lemma magnify_effect:
  "(magnify e x y wrist st = st
      \<and> (\<forall>j<length (parts st). tag (parts st ! j) = FLOWER
             \<longrightarrow> \<not> dist_to x y (parts st ! j) < 50))
   \<or> (\<exists>i<length (parts st). tag (parts st ! i) = FLOWER \<and> dist_to x y (parts st ! i) < 50
        \<and> (\<forall>j<length (parts st). tag (parts st ! j) = FLOWER \<longrightarrow>
              dist_to x y (parts st ! i) \<le> dist_to x y (parts st ! j)
              \<and> (j < i \<longrightarrow> dist_to x y (parts st ! i) < dist_to x y (parts st ! j)))
        \<and> magnify e x y wrist st =
            st\<lparr>parts := (parts st)[i := (parts st ! i)\<lparr>lastHoveredTime := millis e,
                 interactionRotation :=
                   p_atan2 (y - snd wrist * height e) (x - (1 - fst wrist) * width e)\<rparr>]\<rparr>)"
proof -
  obtain d' r' where c: "closest_flower x y 0 (parts st) (50, None) = (d', r')"
    by (cases "closest_flower x y 0 (parts st) (50, None)")
  from closest_flower_spec [OF c] consider
    (none) "r' = None"
      "\<forall>k<length (parts st). tag (parts st ! k) = FLOWER \<longrightarrow> \<not> dist_to x y (parts st ! k) < 50"
    | (found) k where "k < length (parts st)" "r' = Some k" "tag (parts st ! k) = FLOWER"
        "d' = dist_to x y (parts st ! k)" "d' < 50"
        "\<forall>j<length (parts st). tag (parts st ! j) = FLOWER \<longrightarrow>
            d' \<le> dist_to x y (parts st ! j) \<and> (j < k \<longrightarrow> d' < dist_to x y (parts st ! j))"
    by auto
  then show ?thesis
  proof cases
    case none
    have "magnify e x y wrist st = st" using c none(1) by (simp add: magnify_def Let_def)
    then show ?thesis using none(2) by blast
  next
    case found
    have "magnify e x y wrist st =
        st\<lparr>parts := (parts st)[k := (parts st ! k)\<lparr>lastHoveredTime := millis e,
             interactionRotation :=
               p_atan2 (y - snd wrist * height e) (x - (1 - fst wrist) * width e)\<rparr>]\<rparr>"
      using c found(2) by (simp add: magnify_def Let_def)
    then show ?thesis using found by blast
  qed
qed

lemma magnify_frame:
  "\<exists>ps. magnify e x y wrist st = st\<lparr>parts := ps\<rparr> \<and> length ps = length (parts st)
       \<and> map pos ps = map pos (parts st) \<and> map tag ps = map tag (parts st)"
  using magnify_effect [of e x y wrist st]
proof (elim disjE exE conjE)
  assume "magnify e x y wrist st = st"
  then have "magnify e x y wrist st = st\<lparr>parts := parts st\<rparr>" by simp
  then show ?thesis by blast
next
  fix i assume i: "i < length (parts st)" and "magnify e x y wrist st =
    st\<lparr>parts := (parts st)[i := (parts st ! i)\<lparr>lastHoveredTime := millis e,
      interactionRotation :=
        p_atan2 (y - snd wrist * height e) (x - (1 - fst wrist) * width e)\<rparr>]\<rparr>"
  moreover have "map pos ((parts st)[i := (parts st ! i)\<lparr>lastHoveredTime := millis e,
      interactionRotation :=
        p_atan2 (y - snd wrist * height e) (x - (1 - fst wrist) * width e)\<rparr>])
      = map pos (parts st)"
    "map tag ((parts st)[i := (parts st ! i)\<lparr>lastHoveredTime := millis e,
      interactionRotation :=
        p_atan2 (y - snd wrist * height e) (x - (1 - fst wrist) * width e)\<rparr>])
      = map tag (parts st)"
    using i by (simp_all add: map_update list_update_same_conv)
  ultimately show ?thesis by (intro exI conjI) (assumption | simp)+
qed

lemma handle_gate:
  "handleHandInteraction e (h # hs) st =
     (let x = (1 - fst (h 8)) * width e;
          y = snd (h 8) * height e;
          st2 = st\<lparr>wandPos := (case wandPos st of None \<Rightarrow> Some (x, y)
                                   | Some w \<Rightarrow> Some (vector_lerp w (x, y) 0.2)),
                   fingerStillFrames :=
                     (if velocity_of e h st < 3 then fingerStillFrames st + 1 else 0)\<rparr>
      in (if isPointing h \<and> 10 < fingerStillFrames st2
          then magnify e x y (h 0) st2
          else paint e (handScreenSizeRatio_of e h) (velocity_of e h st) x y st2)
         \<lparr>prevIndexPos := Some (x, y)\<rparr>)"
  by (auto simp: handleHandInteraction_def Let_def velocity_of_def)



section \<open>Blooming in \<^verbatim>\<open>part_000\<close>\<close>

lemma take_splice: "i \<le> length xs \<Longrightarrow> take i (splice xs i) = take i xs"
  by (simp add: splice_def)

lemma bloom_loop_p0_effect:
  "i \<le> length (treePositions st) \<Longrightarrow>
   \<exists>fl tps sd. bloom_loop_p0 e x y r i b st
        = st\<lparr>parts := parts st @ fl, treePositions := tps, seed := sd\<rparr>
      \<and> (\<forall>f \<in> set fl. tag f = FLOWER \<and> p_dist x y (fst (pos f)) (snd (pos f)) < r)
      \<and> mset (treePositions st) = mset tps + mset (map pos fl)
      \<and> length fl = min (nat b)
            (length (filter (\<lambda>pt. p_dist x y (fst pt) (snd pt) < r) (take i (treePositions st))))"
proof (induction i arbitrary: b st)
  case 0
  have "bloom_loop_p0 e x y r 0 b st
      = st\<lparr>parts := parts st @ [], treePositions := treePositions st, seed := seed st\<rparr>"
    by simp
  then show ?case by (intro exI [of _ "[]"] exI [of _ "treePositions st"] exI [of _ "seed st"]) simp
next
  case (Suc i)
  let ?pt = "treePositions st ! i"
  let ?P = "\<lambda>pt. p_dist x y (fst pt) (snd pt) < r"
  have tk: "take (Suc i) (treePositions st) = take i (treePositions st) @ [?pt]"
    using Suc.prems by (simp add: take_Suc_conv_app_nth)
  show ?case
  proof (cases "b \<le> 0")
    case True
    have "bloom_loop_p0 e x y r (Suc i) b st
        = st\<lparr>parts := parts st @ [], treePositions := treePositions st, seed := seed st\<rparr>"
      using True by simp
    then show ?thesis using True
      by (intro exI [of _ "[]"] exI [of _ "treePositions st"] exI [of _ "seed st"]) simp
  next
    case False
    show ?thesis
    proof (cases "?P ?pt")
      case hit: True
      obtain f sd where f:
        "spawnFlower_p0 e (fst ?pt) (snd ?pt) st = st\<lparr>parts := parts st @ [f], seed := sd\<rparr>"
        "tag f = FLOWER" "pos f = ?pt"
        using spawnFlower_p0_effect [of e "fst ?pt" "snd ?pt" st] by auto
      let ?st2 = "st\<lparr>parts := parts st @ [f], seed := sd,
                     treePositions := splice (treePositions st) i\<rparr>"
      have r: "bloom_loop_p0 e x y r (Suc i) b st = bloom_loop_p0 e x y r i (b - 1) ?st2"
        using False hit f(1) by (simp add: Let_def)
      have le: "i \<le> length (treePositions ?st2)"
        using Suc.prems by (simp add: length_splice)
      obtain fl tps sd' where ih:
        "bloom_loop_p0 e x y r i (b - 1) ?st2
           = ?st2\<lparr>parts := parts ?st2 @ fl, treePositions := tps, seed := sd'\<rparr>"
        "\<forall>f \<in> set fl. tag f = FLOWER \<and> p_dist x y (fst (pos f)) (snd (pos f)) < r"
        "mset (treePositions ?st2) = mset tps + mset (map pos fl)"
        "length fl = min (nat (b - 1)) (length (filter ?P (take i (treePositions ?st2))))"
        using Suc.IH [OF le, of "b - 1"] by blast
      have e1: "bloom_loop_p0 e x y r (Suc i) b st
          = st\<lparr>parts := parts st @ (f # fl), treePositions := tps, seed := sd'\<rparr>"
        using r ih(1) by simp
      have e2: "\<forall>g \<in> set (f # fl). tag g = FLOWER \<and> p_dist x y (fst (pos g)) (snd (pos g)) < r"
        using ih(2) f(2,3) hit by simp
      have e3: "mset (treePositions st) = mset tps + mset (map pos (f # fl))"
        using mset_splice [of i "treePositions st"] Suc.prems ih(3) f(3) by simp
      have e4: "length (f # fl) = min (nat b) (length (filter ?P (take (Suc i) (treePositions st))))"
        using ih(4) False hit take_splice [of i "treePositions st"] Suc.prems
        by (simp add: tk)
      show ?thesis
        using e1 e2 e3 e4 by (intro exI [of _ "f # fl"] exI [of _ tps] exI [of _ sd']) blast
    next
      case miss: False
      have r: "bloom_loop_p0 e x y r (Suc i) b st = bloom_loop_p0 e x y r i b st"
        using False miss by (simp add: Let_def)
      have le: "i \<le> length (treePositions st)" using Suc.prems by simp
      show ?thesis using Suc.IH [OF le, of b] miss unfolding r by (simp add: tk)
    qed
  qed
qed

lemma handle_p0_effect:
  assumes "x = (1 - fst (h 8)) * width e" and "y = snd (h 8) * height e"
    and "v = velocity_p0 e h st" and "r = (if v > 8 then 80 else 40)"
  shows "\<exists>fl tps sd. handleHandInteraction_p0 e (h # hs) st
        = st\<lparr>parts := parts st @ fl, treePositions := tps, seed := sd,
               prevHandPos := Some (x, y)\<rparr>
      \<and> (\<forall>f \<in> set fl. tag f = FLOWER \<and> p_dist x y (fst (pos f)) (snd (pos f)) < r)
      \<and> mset (treePositions st) = mset tps + mset (map pos fl)
      \<and> length fl = min (nat (fst (bloomsNeeded_p0 e v st)))
            (length (filter (\<lambda>pt. p_dist x y (fst pt) (snd pt) < r) (treePositions st)))"
proof -
  let ?P = "\<lambda>pt. p_dist x y (fst pt) (snd pt) < r"
  obtain b st1 where b: "bloomsNeeded_p0 e v st = (b, st1)" by (cases "bloomsNeeded_p0 e v st")
  have "st1 = st\<lparr>seed := seed st\<rparr> \<or> st1 = st\<lparr>seed := Suc (seed st)\<rparr>"
    using b by (auto simp: bloomsNeeded_p0_def Let_def p_random_def split: if_splits)
  then obtain s1 where st1: "st1 = st\<lparr>seed := s1\<rparr>" by blast
  show ?thesis
  proof (cases "treePositions st \<noteq> [] \<and> b > 0")
    case True
    obtain fl tps sd where l:
      "bloom_loop_p0 e x y r (length (treePositions st1)) b st1
         = st1\<lparr>parts := parts st1 @ fl, treePositions := tps, seed := sd\<rparr>"
      "\<forall>f \<in> set fl. tag f = FLOWER \<and> p_dist x y (fst (pos f)) (snd (pos f)) < r"
      "mset (treePositions st1) = mset tps + mset (map pos fl)"
      "length fl = min (nat b) (length (filter ?P (take (length (treePositions st1)) (treePositions st1))))"
      using bloom_loop_p0_effect [of "length (treePositions st1)" st1 e x y r b] by auto
    have "handleHandInteraction_p0 e (h # hs) st
        = (bloom_loop_p0 e x y r (length (treePositions st1)) b st1)\<lparr>prevHandPos := Some (x, y)\<rparr>"
      using True b assms by (simp add: handleHandInteraction_p0_def Let_def)
    also have "\<dots> = st\<lparr>parts := parts st @ fl, treePositions := tps, seed := sd,
        prevHandPos := Some (x, y)\<rparr>"
      unfolding l(1) by (simp add: st1)
    finally show ?thesis using l(2,3,4) st1 b
      by (intro exI [of _ fl] exI [of _ tps] exI [of _ sd]) simp
  next
    case False
    show ?thesis
    proof (cases "treePositions st = []")
      case True
      have "handleHandInteraction_p0 e (h # hs) st
          = st\<lparr>parts := parts st @ [], treePositions := [], seed := seed st,
                prevHandPos := Some (x, y)\<rparr>"
        using True assms by (simp add: handleHandInteraction_p0_def Let_def)
      then show ?thesis using True
        by (intro exI [of _ "[]"] exI [of _ "[]"] exI [of _ "seed st"]) simp
    next
      case ne: False
      then have b0: "b \<le> 0" using False by simp
      have "handleHandInteraction_p0 e (h # hs) st
          = st\<lparr>parts := parts st @ [], treePositions := treePositions st, seed := s1,
                prevHandPos := Some (x, y)\<rparr>"
        using ne b0 b assms by (simp add: handleHandInteraction_p0_def Let_def st1)
      then show ?thesis using b0 b
        by (intro exI [of _ "[]"] exI [of _ "treePositions st"] exI [of _ s1]) simp
    qed
  qed
qed

section \<open>What one call of \<^verbatim>\<open>handleHandInteraction\<close> changes\<close>

lemma map_hover_update:
  assumes "i < length ps"
  shows "map pos (ps[i := (ps ! i)\<lparr>lastHoveredTime := t, interactionRotation := a\<rparr>]) = map pos ps"
    and "map tag (ps[i := (ps ! i)\<lparr>lastHoveredTime := t, interactionRotation := a\<rparr>]) = map tag ps"
  using assms by (simp_all add: map_update list_update_same_conv)

lemma handle_effect:
  assumes "x = (1 - fst (h 8)) * width e" and "y = snd (h 8) * height e"
    and "v = velocity_of e h st"
  shows "\<exists>ps fl tps sd k w. handleHandInteraction e (h # hs) st
        = st\<lparr>parts := ps @ fl, treePositions := tps, seed := sd, fingerStillFrames := k,
               wandPos := w, prevIndexPos := Some (x, y)\<rparr>
      \<and> map pos ps = map pos (parts st) \<and> map tag ps = map tag (parts st)
      \<and> (\<forall>f \<in> set fl. tag f = FLOWER
            \<and> (\<exists>prev s. prevIndexPos st = Some prev \<and> s \<le> nat \<lceil>v / 10\<rceil>
                  \<and> near (probe prev x y (nat \<lceil>v / 10\<rceil>) s) (pos f) 30))
      \<and> mset (treePositions st) = mset tps + mset (map pos fl)
      \<and> length fl \<le> length (probe_steps v)"
proof -
  let ?k = "if v < 3 then fingerStillFrames st + 1 else 0"
  let ?w = "case wandPos st of None \<Rightarrow> Some (x, y) | Some w \<Rightarrow> Some (vector_lerp w (x, y) 0.2)"
  let ?st2 = "st\<lparr>wandPos := ?w, fingerStillFrames := ?k\<rparr>"
  let ?gate = "isPointing h \<and> 10 < ?k"
  have eq: "handleHandInteraction e (h # hs) st
      = (if ?gate then magnify e x y (h 0) ?st2
         else paint e (handScreenSizeRatio_of e h) v x y ?st2)\<lparr>prevIndexPos := Some (x, y)\<rparr>"
    unfolding assms handle_gate by (simp add: Let_def)
  show ?thesis
  proof (cases ?gate)
    case True
    obtain ps where ps:
      "magnify e x y (h 0) ?st2 = ?st2\<lparr>parts := ps\<rparr>"
      "map pos ps = map pos (parts st)" "map tag ps = map tag (parts st)"
      using magnify_frame [of e x y "h 0" ?st2] by auto
    have "handleHandInteraction e (h # hs) st
        = st\<lparr>parts := ps @ [], treePositions := treePositions st, seed := seed st,
              fingerStillFrames := ?k, wandPos := ?w, prevIndexPos := Some (x, y)\<rparr>"
      unfolding eq if_P [OF True] ps(1) by simp
    then show ?thesis using ps(2,3)
      by (intro exI [of _ ps] exI [of _ "[]"] exI [of _ "treePositions st"] exI [of _ "seed st"]
          exI [of _ ?k] exI [of _ ?w]) simp
  next
    case False
    obtain fl tps sd where p:
      "paint e (handScreenSizeRatio_of e h) v x y ?st2
         = ?st2\<lparr>parts := parts ?st2 @ fl, treePositions := tps, seed := sd\<rparr>"
      "\<forall>f \<in> set fl. tag f = FLOWER
          \<and> (\<exists>prev s. prevIndexPos ?st2 = Some prev \<and> s \<le> nat \<lceil>v / 10\<rceil>
                \<and> near (probe prev x y (nat \<lceil>v / 10\<rceil>) s) (pos f) 30)"
      "mset (treePositions ?st2) = mset tps + mset (map pos fl)"
      "length fl \<le> length (probe_steps v)"
      "prevIndexPos ?st2 = None \<or> treePositions ?st2 = [] \<longrightarrow> fl = []"
      using paint_effect [of e "handScreenSizeRatio_of e h" v x y ?st2] by blast
    have "handleHandInteraction e (h # hs) st
        = st\<lparr>parts := parts st @ fl, treePositions := tps, seed := sd,
              fingerStillFrames := ?k, wandPos := ?w, prevIndexPos := Some (x, y)\<rparr>"
      unfolding eq if_not_P [OF False] p(1) by simp
    then show ?thesis using p(2,3,4)
      by (intro exI [of _ "parts st"] exI [of _ fl] exI [of _ tps] exI [of _ sd]
          exI [of _ ?k] exI [of _ ?w]) simp
  qed
qed

section \<open>What one call of \<^verbatim>\<open>update\<close> changes in the sketch\<close>

lemma spawn_branch_effect:
  "\<exists>ch sd. spawn_branch e this st = st\<lparr>parts := parts st @ ch, seed := sd\<rparr>
      \<and> (\<forall>c \<in> set ch. tag c = BRANCH)"
proof (cases "rnd e (seed st) < 0.03 \<and> tag this = TRUNK \<and> siz this < 0.55")
  case True
  let ?a = "p_random_range e 15 30 (Suc (seed st))"
  let ?d = "randNeg e (fst ?a) (snd ?a)"
  let ?n = "new_Particle e (fst (pos this)) (snd (pos this)) (col this) (rsiz this)
              (dir this + fst ?d) (life this) (lifespan this) BRANCH (snd ?d)"
  have "spawn_branch e this st = st\<lparr>parts := parts st @ [fst ?n], seed := snd ?n\<rparr>"
    using True by (simp add: spawn_branch_def Let_def split_beta p_random_def)
  moreover have "tag (fst ?n) = BRANCH" by (simp add: new_Particle_fields)
  ultimately show ?thesis by (intro exI [of _ "[fst ?n]"] exI [of _ "snd ?n"]) simp
next
  case False
  then have "spawn_branch e this st = st\<lparr>parts := parts st @ [], seed := Suc (seed st)\<rparr>"
    by (auto simp: spawn_branch_def Let_def split_beta p_random_def)
  then show ?thesis by (intro exI [of _ "[]"] exI [of _ "Suc (seed st)"]) simp
qed

lemma fork_branch_effect:
  "\<exists>ch sd. fork_branch e this st = st\<lparr>parts := parts st @ ch, seed := sd\<rparr>
      \<and> (\<forall>c \<in> set ch. tag c = BRANCH)"
proof (cases "rnd e (seed st) < 0.01 \<and> tag this = BRANCH")
  case True
  let ?n = "new_Particle e (fst (pos this)) (snd (pos this)) (col this) (rsiz this)
              (dir this) (life this) (lifespan this) BRANCH (Suc (seed st))"
  have "fork_branch e this st = st\<lparr>parts := parts st @ [fst ?n], seed := snd ?n\<rparr>"
    using True by (simp add: fork_branch_def Let_def split_beta p_random_def)
  moreover have "tag (fst ?n) = BRANCH" by (simp add: new_Particle_fields)
  ultimately show ?thesis by (intro exI [of _ "[fst ?n]"] exI [of _ "snd ?n"]) simp
next
  case False
  then have "fork_branch e this st = st\<lparr>parts := parts st @ [], seed := Suc (seed st)\<rparr>"
    by (auto simp: fork_branch_def Let_def split_beta p_random_def)
  then show ?thesis by (intro exI [of _ "[]"] exI [of _ "Suc (seed st)"]) simp
qed

lemma spawn_twig_effect:
  "\<exists>ch sd. spawn_twig e this st = st\<lparr>parts := parts st @ ch, seed := sd\<rparr>
      \<and> (\<forall>c \<in> set ch. tag c = TWIG)"
proof -
  let ?tc = "if tag this = BRANCH \<and> siz this < 0.25
             then p_map (siz this) 0 0.25 0.5 0.3 False else 0"
  show ?thesis
  proof (cases "rnd e (seed st) < ?tc")
    case True
    let ?a = "p_random_range e 5 20 (Suc (seed st))"
    let ?d = "randNeg e (fst ?a) (snd ?a)"
    let ?l = "p_random_max e (lifespan this * 0.05) (snd ?d)"
    let ?n = "new_Particle e (fst (pos this)) (snd (pos this)) (col this)
                (sqrt (siz this) * rsiz this) (dir this + fst ?d) 0 (fst ?l) TWIG (snd ?l)"
    have "spawn_twig e this st = st\<lparr>parts := parts st @ [fst ?n], seed := snd ?n\<rparr>"
      using True by (simp add: spawn_twig_def Let_def split_beta p_random_def)
    moreover have "tag (fst ?n) = TWIG" by (simp add: new_Particle_fields)
    ultimately show ?thesis by (intro exI [of _ "[fst ?n]"] exI [of _ "snd ?n"]) simp
  next
    case False
    then have "spawn_twig e this st = st\<lparr>parts := parts st @ [], seed := Suc (seed st)\<rparr>"
      by (simp add: spawn_twig_def Let_def split_beta p_random_def)
    then show ?thesis by (intro exI [of _ "[]"] exI [of _ "Suc (seed st)"]) simp
  qed
qed

lemma spawn_branch_p0_effect:
  "\<exists>ch sd. spawn_branch_p0 e this cs st = st\<lparr>parts := parts st @ ch, seed := sd\<rparr>
      \<and> (\<forall>c \<in> set ch. tag c = BRANCH)"
proof (cases "rnd e (seed st) < 0.03 \<and> tag this = TRUNK \<and> siz this < 0.6")
  case True
  let ?v = "rnd e (Suc (seed st))"
  let ?a = "p_random_range e 20 40 (Suc (Suc (seed st)))"
  let ?n = "new_Particle_p0 e (fst (pos this)) (snd (pos this)) (col this) (cs * 0.9)
              (dir this + (if ?v < 0.5 then 1 else - 1) * fst ?a) (life this) (lifespan this)
              BRANCH (snd ?a)"
  have "spawn_branch_p0 e this cs st = st\<lparr>parts := parts st @ [fst ?n], seed := snd ?n\<rparr>"
    using True by (simp add: spawn_branch_p0_def Let_def split_beta p_random_def)
  moreover have "tag (fst ?n) = BRANCH" by (simp add: new_Particle_p0_fields)
  ultimately show ?thesis by (intro exI [of _ "[fst ?n]"] exI [of _ "snd ?n"]) simp
next
  case False
  then have "spawn_branch_p0 e this cs st = st\<lparr>parts := parts st @ [], seed := Suc (seed st)\<rparr>"
    by (auto simp: spawn_branch_p0_def Let_def split_beta p_random_def)
  then show ?thesis by (intro exI [of _ "[]"] exI [of _ "Suc (seed st)"]) simp
qed

lemma fork_branch_p0_effect:
  "\<exists>ch sd. fork_branch_p0 e this cs st = st\<lparr>parts := parts st @ ch, seed := sd\<rparr>
      \<and> (\<forall>c \<in> set ch. tag c = BRANCH)"
proof (cases "rnd e (seed st) < 0.01 \<and> tag this = BRANCH \<and> siz this > 0.5")
  case True
  let ?a = "p_random_range e (- 10) 10 (Suc (seed st))"
  let ?n = "new_Particle_p0 e (fst (pos this)) (snd (pos this)) (col this) cs
              (dir this + fst ?a) (life this) (lifespan this) BRANCH (snd ?a)"
  have "fork_branch_p0 e this cs st = st\<lparr>parts := parts st @ [fst ?n], seed := snd ?n\<rparr>"
    using True by (simp add: fork_branch_p0_def Let_def split_beta p_random_def)
  moreover have "tag (fst ?n) = BRANCH" by (simp add: new_Particle_p0_fields)
  ultimately show ?thesis by (intro exI [of _ "[fst ?n]"] exI [of _ "snd ?n"]) simp
next
  case False
  then have "fork_branch_p0 e this cs st = st\<lparr>parts := parts st @ [], seed := Suc (seed st)\<rparr>"
    by (auto simp: fork_branch_p0_def Let_def split_beta p_random_def)
  then show ?thesis by (intro exI [of _ "[]"] exI [of _ "Suc (seed st)"]) simp
qed

lemma update_effect:
  "\<exists>ch new sd. snd (snd (update e p st))
        = st\<lparr>parts := parts st @ ch, treePositions := treePositions st @ new, seed := sd\<rparr>
      \<and> (\<forall>c \<in> set ch. tag c = BRANCH \<or> tag c = TWIG)
      \<and> (new = [] \<or> new = [pos (fst (snd (update e p st)))] \<and> tag p \<noteq> FLOWER)
      \<and> (fst (update e p st) \<longrightarrow> ch = [] \<and> new = [])"
proof (cases "tag p = FLOWER")
  case True
  have "snd (snd (update e p st))
      = st\<lparr>parts := parts st @ [], treePositions := treePositions st @ [], seed := seed st\<rparr>"
    using True by (simp add: update_on_flower)
  then show ?thesis
    by (intro exI [of _ "[]"] exI [of _ "seed st"]) simp
next
  case False
  let ?p = "fst (grow e (p\<lparr>life := life p + 1\<rparr>) (seed st))"
  let ?st1 = "st\<lparr>seed := Suc (Suc (seed st))\<rparr>"
  have p': "fst (snd (update e p st)) = ?p"
    using False by (simp add: update_def Let_def split_beta)
  show ?thesis
  proof (cases "fst (update e p st)")
    case True
    have "snd (snd (update e p st)) = ?st1"
      using False True by (auto simp: update_def Let_def split_beta grow_fields split: if_splits)
    then have "snd (snd (update e p st))
        = st\<lparr>parts := parts st @ [], treePositions := treePositions st @ [],
              seed := Suc (Suc (seed st))\<rparr>"
      by simp
    then show ?thesis
      by (intro exI [of _ "[]"] exI [of _ "Suc (Suc (seed st))"]) simp
  next
    case alive: False
    obtain new where new: "new = [] \<or> new = [pos ?p]"
      and "snd (snd (update e p st))
        = spawn_twig e ?p (fork_branch e ?p (spawn_branch e ?p
            (?st1\<lparr>treePositions := treePositions st @ new\<rparr>)))"
    proof (cases "frameCount e mod 5 = 0 \<and> snd (pos ?p) < height e * 0.7")
      case True
      have "snd (snd (update e p st))
        = spawn_twig e ?p (fork_branch e ?p (spawn_branch e ?p
            (?st1\<lparr>treePositions := treePositions st @ [pos ?p]\<rparr>)))"
        using False alive True
        by (auto simp: update_def Let_def split_beta grow_fields split: if_splits)
      then show ?thesis using that [of "[pos ?p]"] by simp
    next
      case nr: False
      have "snd (snd (update e p st))
        = spawn_twig e ?p (fork_branch e ?p (spawn_branch e ?p
            (?st1\<lparr>treePositions := treePositions st @ []\<rparr>)))"
        using False alive nr
        by (auto simp: update_def Let_def split_beta grow_fields split: if_splits)
      then show ?thesis using that [of "[]"] by simp
    qed
    note r = this(2)
    let ?s2 = "?st1\<lparr>treePositions := treePositions st @ new\<rparr>"
    obtain c1 d1 where a: "spawn_branch e ?p ?s2 = ?s2\<lparr>parts := parts ?s2 @ c1, seed := d1\<rparr>"
      "\<forall>c \<in> set c1. tag c = BRANCH"
      using spawn_branch_effect [of e ?p ?s2] by blast
    let ?s3 = "?s2\<lparr>parts := parts ?s2 @ c1, seed := d1\<rparr>"
    obtain c2 d2 where b: "fork_branch e ?p ?s3 = ?s3\<lparr>parts := parts ?s3 @ c2, seed := d2\<rparr>"
      "\<forall>c \<in> set c2. tag c = BRANCH"
      using fork_branch_effect [of e ?p ?s3] by blast
    let ?s4 = "?s3\<lparr>parts := parts ?s3 @ c2, seed := d2\<rparr>"
    obtain c3 d3 where c: "spawn_twig e ?p ?s4 = ?s4\<lparr>parts := parts ?s4 @ c3, seed := d3\<rparr>"
      "\<forall>c \<in> set c3. tag c = TWIG"
      using spawn_twig_effect [of e ?p ?s4] by blast
    have "snd (snd (update e p st))
        = st\<lparr>parts := parts st @ (c1 @ c2 @ c3), treePositions := treePositions st @ new,
              seed := d3\<rparr>"
      unfolding r a(1) b(1) c(1) by simp
    moreover have "\<forall>c \<in> set (c1 @ c2 @ c3). tag c = BRANCH \<or> tag c = TWIG"
      using a(2) b(2) c(2) by auto
    ultimately show ?thesis using new alive False p'
      by (intro exI [of _ "c1 @ c2 @ c3"] exI [of _ new] exI [of _ d3]) auto
  qed
qed

lemma update_p0_effect:
  "\<exists>ch new sd. snd (snd (update_p0 e p st))
        = st\<lparr>parts := parts st @ ch, treePositions := treePositions st @ new, seed := sd\<rparr>
      \<and> (\<forall>c \<in> set ch. tag c = BRANCH)
      \<and> (new = [] \<or> new = [pos (fst (snd (update_p0 e p st)))] \<and> tag p \<noteq> FLOWER)
      \<and> (fst (update_p0 e p st) \<longrightarrow> ch = [])"
proof (cases "tag p = FLOWER")
  case True
  have "snd (snd (update_p0 e p st))
      = st\<lparr>parts := parts st @ [], treePositions := treePositions st @ [], seed := seed st\<rparr>"
    using update_p0_on_flower [OF True, of e st] by simp
  then show ?thesis
    by (intro exI [of _ "[]"] exI [of _ "seed st"]) simp
next
  case False
  let ?q = "p\<lparr>life := life p + 1\<rparr>"
  let ?p = "fst (grow_p0 e ?q st)"
  let ?cs = "asiz ?p * siz ?p"
  have p': "fst (snd (update_p0 e p st)) = ?p"
    using False by (simp add: update_p0_def Let_def split_beta)
  obtain new where new: "new = [] \<or> new = [pos ?p]"
    and g: "snd (grow_p0 e ?q st)
      = st\<lparr>treePositions := treePositions st @ new, seed := Suc (taper_index_p0 e (tag ?q) st)\<rparr>"
    using grow_p0_sketch [of e ?q st]
  proof (elim disjE)
    assume "snd (grow_p0 e ?q st) = st\<lparr>treePositions := treePositions st @ [pos ?p],
        seed := Suc (taper_index_p0 e (tag ?q) st)\<rparr>"
    then show ?thesis using that [of "[pos ?p]"] by simp
  next
    assume "snd (grow_p0 e ?q st) = st\<lparr>seed := Suc (taper_index_p0 e (tag ?q) st)\<rparr>"
    then show ?thesis using that [of "[]"] by simp
  qed
  let ?s2 = "st\<lparr>treePositions := treePositions st @ new, seed := Suc (taper_index_p0 e (tag ?q) st)\<rparr>"
  show ?thesis
  proof (cases "fst (update_p0 e p st)")
    case True
    have "snd (snd (update_p0 e p st)) = ?s2"
      using False True g by (auto simp: update_p0_def Let_def split_beta split: if_splits)
    then have "snd (snd (update_p0 e p st))
        = st\<lparr>parts := parts st @ [], treePositions := treePositions st @ new,
              seed := Suc (taper_index_p0 e (tag ?q) st)\<rparr>"
      by simp
    then show ?thesis using new False p'
      by (intro exI [of _ "[]"] exI [of _ new] exI [of _ "Suc (taper_index_p0 e (tag ?q) st)"]) auto
  next
    case alive: False
    have r: "snd (snd (update_p0 e p st))
        = fork_branch_p0 e ?p ?cs (spawn_branch_p0 e ?p ?cs ?s2)"
      using False alive g by (auto simp: update_p0_def Let_def split_beta split: if_splits)
    obtain c1 d1 where a:
      "spawn_branch_p0 e ?p ?cs ?s2 = ?s2\<lparr>parts := parts ?s2 @ c1, seed := d1\<rparr>"
      "\<forall>c \<in> set c1. tag c = BRANCH"
      using spawn_branch_p0_effect [of e ?p ?cs ?s2] by blast
    let ?s3 = "?s2\<lparr>parts := parts ?s2 @ c1, seed := d1\<rparr>"
    obtain c2 d2 where b:
      "fork_branch_p0 e ?p ?cs ?s3 = ?s3\<lparr>parts := parts ?s3 @ c2, seed := d2\<rparr>"
      "\<forall>c \<in> set c2. tag c = BRANCH"
      using fork_branch_p0_effect [of e ?p ?cs ?s3] by blast
    have "snd (snd (update_p0 e p st))
        = st\<lparr>parts := parts st @ (c1 @ c2), treePositions := treePositions st @ new,
              seed := d2\<rparr>"
      unfolding r a(1) b(1) by simp
    moreover have "\<forall>c \<in> set (c1 @ c2). tag c = BRANCH"
      using a(2) b(2) by auto
    ultimately show ?thesis using new alive False p'
      by (intro exI [of _ "c1 @ c2"] exI [of _ new] exI [of _ d2]) auto
  qed
qed

section \<open>Every recorded position blooms at most once\<close>

lemma map_tag_flowers: "\<forall>f \<in> set fl. tag f = FLOWER \<Longrightarrow> map tag fl = replicate (length fl) FLOWER"
  by (induction fl) simp_all

lemma handle_blooms:
  "mset (treePositions st) =
     mset (treePositions (handleHandInteraction e result st))
     + mset (map pos (drop (length (parts st)) (parts (handleHandInteraction e result st))))
   \<and> length (parts st) \<le> length (parts (handleHandInteraction e result st))
   \<and> map tag (drop (length (parts st)) (parts (handleHandInteraction e result st)))
       = replicate (length (parts (handleHandInteraction e result st)) - length (parts st)) FLOWER"
proof (cases result)
  case Nil
  then show ?thesis by (simp add: handleHandInteraction_def)
next
  case (Cons h hs)
  obtain ps fl tps sd k w where a:
    "handleHandInteraction e (h # hs) st
       = st\<lparr>parts := ps @ fl, treePositions := tps, seed := sd, fingerStillFrames := k,
              wandPos := w, prevIndexPos := Some ((1 - fst (h 8)) * width e, snd (h 8) * height e)\<rparr>"
    "map pos ps = map pos (parts st)"
    "\<forall>f \<in> set fl. tag f = FLOWER"
    "mset (treePositions st) = mset tps + mset (map pos fl)"
    using handle_effect [OF refl refl refl, of e h hs st] by blast
  have l: "length ps = length (parts st)" using a(2) by (rule map_eq_imp_length_eq)
  show ?thesis
    unfolding Cons a(1) using a(4) l map_tag_flowers [OF a(3)] by simp
qed

lemma handle_p0_blooms:
  "mset (treePositions st) =
     mset (treePositions (handleHandInteraction_p0 e result st))
     + mset (map pos (drop (length (parts st)) (parts (handleHandInteraction_p0 e result st))))
   \<and> length (parts st) \<le> length (parts (handleHandInteraction_p0 e result st))
   \<and> map tag (drop (length (parts st)) (parts (handleHandInteraction_p0 e result st)))
       = replicate (length (parts (handleHandInteraction_p0 e result st)) - length (parts st)) FLOWER"
proof (cases result)
  case Nil
  then show ?thesis by (simp add: handleHandInteraction_p0_def)
next
  case (Cons h hs)
  obtain fl tps sd where a:
    "handleHandInteraction_p0 e (h # hs) st
       = st\<lparr>parts := parts st @ fl, treePositions := tps, seed := sd,
              prevHandPos := Some ((1 - fst (h 8)) * width e, snd (h 8) * height e)\<rparr>"
    "\<forall>f \<in> set fl. tag f = FLOWER"
    "mset (treePositions st) = mset tps + mset (map pos fl)"
    using handle_p0_effect [OF refl refl refl refl, of e h hs st] by blast
  show ?thesis
    unfolding Cons a(1) using a(3) map_tag_flowers [OF a(2)] by simp
qed

text \<open>
  Claim C10. In one call of \<^verbatim>\<open>handleHandInteraction\<close>, whatever it is given, the particles
  added to \<^verbatim>\<open>parts\<close> are all flowers, and the recorded positions before the call are, as a
  multiset, the recorded positions after the call together with the positions of the
  flowers added: every flower spawned takes its own entry out of \<^verbatim>\<open>treePositions\<close> in the
  same call, so no entry yields two flowers. In both revisions.
\<close>

theorem recorded_position_blooms_once:
  "mset (treePositions st) =
     mset (treePositions (handleHandInteraction e result st))
     + mset (map pos (drop (length (parts st)) (parts (handleHandInteraction e result st))))
   \<and> length (parts st) \<le> length (parts (handleHandInteraction e result st))
   \<and> map tag (drop (length (parts st)) (parts (handleHandInteraction e result st)))
       = replicate (length (parts (handleHandInteraction e result st)) - length (parts st)) FLOWER
   \<and> mset (treePositions sq) =
     mset (treePositions (handleHandInteraction_p0 e result sq))
     + mset (map pos (drop (length (parts sq)) (parts (handleHandInteraction_p0 e result sq))))
   \<and> length (parts sq) \<le> length (parts (handleHandInteraction_p0 e result sq))
   \<and> map tag (drop (length (parts sq)) (parts (handleHandInteraction_p0 e result sq)))
       = replicate (length (parts (handleHandInteraction_p0 e result sq)) - length (parts sq)) FLOWER"
  using handle_blooms [of st e result] handle_p0_blooms [of sq e result] by simp

section \<open>What the particle loop changes\<close>

lemma update_keeps_flower:
  "tag (fst (snd (update e p st))) = tag p"
  "tag p = FLOWER \<Longrightarrow> pos (fst (snd (update e p st))) = pos p"
  by (cases "tag p = FLOWER"; simp add: update_on_flower update_flower_keeps update_tree)+

lemma update_p0_keeps_flower:
  "tag (fst (snd (update_p0 e p st))) = tag p"
  "tag p = FLOWER \<Longrightarrow> pos (fst (snd (update_p0 e p st))) = pos p"
  by (cases "tag p = FLOWER"; simp add: update_p0_on_flower update_p0_tree)+

lemma set_splice_subset: "set (splice xs i) \<subseteq> set xs"
  using set_take_subset [of i xs] set_drop_subset [of "Suc i" xs] by (auto simp: splice_def)

text \<open>When \<^verbatim>\<open>update\<close> records a position, and which one.\<close>

lemma spawn_rules_records:
  "treePositions (spawn_twig e a (fork_branch e a (spawn_branch e a st))) = treePositions st"
proof -
  obtain c1 d1 where a: "spawn_branch e a st = st\<lparr>parts := parts st @ c1, seed := d1\<rparr>"
    using spawn_branch_effect [of e a st] by blast
  let ?s1 = "spawn_branch e a st"
  obtain c2 d2 where b: "fork_branch e a ?s1 = ?s1\<lparr>parts := parts ?s1 @ c2, seed := d2\<rparr>"
    using fork_branch_effect [of e a ?s1] by blast
  let ?s2 = "fork_branch e a ?s1"
  obtain c3 d3 where c: "spawn_twig e a ?s2 = ?s2\<lparr>parts := parts ?s2 @ c3, seed := d3\<rparr>"
    using spawn_twig_effect [of e a ?s2] by blast
  have "treePositions (spawn_twig e a ?s2) = treePositions ?s2" by (subst c) simp
  also have "\<dots> = treePositions ?s1" by (subst b) simp
  also have "\<dots> = treePositions st" by (subst a) simp
  finally show ?thesis .
qed

lemma update_records:
  "treePositions (snd (snd (update e p st)))
     = treePositions st
       @ (if tag p \<noteq> FLOWER \<and> \<not> fst (update e p st) \<and> frameCount e mod 5 = 0
             \<and> snd (pos (fst (snd (update e p st)))) < height e * 0.7
          then [pos (fst (snd (update e p st)))] else [])"
proof (cases "tag p = FLOWER")
  case True
  then show ?thesis by (simp add: update_on_flower)
next
  case False
  let ?g = "grow e (p\<lparr>life := life p + 1\<rparr>) (seed st)"
  let ?dead = "rsiz (fst ?g) < 0.1 \<or> spd (fst ?g) > rsiz (fst ?g)"
  let ?st2 = "if frameCount e mod 5 = 0 \<and> snd (pos (fst ?g)) < height e * 0.7
              then st\<lparr>seed := snd ?g, treePositions := treePositions st @ [pos (fst ?g)]\<rparr>
              else st\<lparr>seed := snd ?g\<rparr>"
  have u: "update e p st
      = (if ?dead then (True, fst ?g, st\<lparr>seed := snd ?g\<rparr>)
         else (False, fst ?g,
               spawn_twig e (fst ?g) (fork_branch e (fst ?g) (spawn_branch e (fst ?g) ?st2))))"
    using False by (simp add: update_def Let_def split_beta)
  show ?thesis
  proof (cases ?dead)
    case True
    then show ?thesis unfolding u by simp
  next
    case dead: False
    have "treePositions (snd (snd (update e p st))) = treePositions ?st2"
      unfolding u if_not_P [OF dead] by (simp only: snd_conv spawn_rules_records)
    moreover have "fst (snd (update e p st)) = fst ?g" "\<not> fst (update e p st)"
      unfolding u if_not_P [OF dead] by simp_all
    ultimately show ?thesis using False by simp
  qed
qed

lemma grow_p0_records:
  "treePositions (snd (grow_p0 e p st))
     = treePositions st @ (if frameCount e mod 4 = 0 then [pos (fst (grow_p0 e p st))] else [])"
  by (simp add: grow_p0_def Let_def split_beta p_random_range_def p_random_max_def
      p_random_def curl_p0_def)

lemma update_p0_records:
  "treePositions (snd (snd (update_p0 e p st)))
     = treePositions st
       @ (if tag p \<noteq> FLOWER \<and> frameCount e mod 4 = 0
          then [pos (fst (snd (update_p0 e p st)))] else [])"
proof (cases "tag p = FLOWER")
  case True
  then show ?thesis by (simp add: update_p0_on_flower)
next
  case False
  let ?g = "grow_p0 e (p\<lparr>life := life p + 1\<rparr>) st"
  let ?cs = "asiz (fst ?g) * siz (fst ?g)"
  let ?dead = "?cs < 0.5 \<or> spd (fst ?g) > ?cs"
  have u: "update_p0 e p st
      = (if ?dead then (True, fst ?g, snd ?g)
         else (False, fst ?g,
               fork_branch_p0 e (fst ?g) ?cs (spawn_branch_p0 e (fst ?g) ?cs (snd ?g))))"
    using False by (simp add: update_p0_def Let_def split_beta)
  have r: "treePositions (fork_branch_p0 e a c (spawn_branch_p0 e a c s)) = treePositions s"
    for a c s
  proof -
    obtain c1 d1 where a: "spawn_branch_p0 e a c s = s\<lparr>parts := parts s @ c1, seed := d1\<rparr>"
      using spawn_branch_p0_effect [of e a c s] by blast
    let ?s1 = "spawn_branch_p0 e a c s"
    obtain c2 d2 where b: "fork_branch_p0 e a c ?s1 = ?s1\<lparr>parts := parts ?s1 @ c2, seed := d2\<rparr>"
      using fork_branch_p0_effect [of e a c ?s1] by blast
    have "treePositions (fork_branch_p0 e a c ?s1) = treePositions ?s1" by (subst b) simp
    also have "\<dots> = treePositions s" by (subst a) simp
    finally show ?thesis .
  qed
  have "treePositions (snd (snd (update_p0 e p st))) = treePositions (snd ?g)"
    unfolding u by (simp add: r)
  moreover have "fst (snd (update_p0 e p st)) = fst ?g" unfolding u by simp
  ultimately show ?thesis using False by (simp add: grow_p0_records)
qed

text \<open>What \<^verbatim>\<open>display\<close> paints, and what it takes from the generator.\<close>

lemma display_effect:
  "\<exists>ink. display e p target s = (target @ ink, if tag p = FLOWER then s else Suc s)
      \<and> (ink = [] \<or> ink = [Circle (pos p) (rsiz p) (col p)] \<and> rnd e s < 0.3
           \<or> ink = [Blossom (pos p) (currentRotation p) (currentScale p) (asiz p * siz p)
                       (col p) (stamenCol p)] \<and> tag p = FLOWER)"
  by (simp add: display_def Let_def p_random_def)

lemma display_p0_effect:
  "\<exists>ink. display_p0 e p target = target @ ink"
proof (cases "tag p = FLOWER")
  case True
  then show ?thesis by (simp add: display_p0_def Let_def)
next
  case False
  then show ?thesis by (cases "frameCount e mod 2 = 0") (simp_all add: display_p0_def)
qed

lemma display_all_effect:
  "\<exists>cv sd. display_all e ps st = st\<lparr>canvas := cv, seed := sd\<rparr>"
proof (induction ps arbitrary: st)
  case Nil
  have "display_all e [] st = st\<lparr>canvas := canvas st, seed := seed st\<rparr>" by simp
  then show ?case by blast
next
  case (Cons p ps)
  let ?st1 = "st\<lparr>canvas := fst (display e p (canvas st) (seed st)),
                 seed := snd (display e p (canvas st) (seed st))\<rparr>"
  obtain cv sd where "display_all e ps ?st1 = ?st1\<lparr>canvas := cv, seed := sd\<rparr>"
    using Cons [of ?st1] by blast
  then have "display_all e (p # ps) st = st\<lparr>canvas := cv, seed := sd\<rparr>"
    by (simp add: split_beta)
  then show ?case by blast
qed

text \<open>
  One iteration of the loop of \<^verbatim>\<open>GenerativeTree.tsx\<close>: what it does to the sketch state
  does not depend on the two local lists.
\<close>

lemma draw_step_effect:
  assumes "i < length (parts (fst ls))"
  shows "\<exists>ps ch new sd ink. fst (draw_step e i ls)
        = (fst ls)\<lparr>parts := ps @ ch, treePositions := treePositions (fst ls) @ new, seed := sd,
                   treeLayer := treeLayer (fst ls) @ ink\<rparr>
      \<and> i \<le> length ps
      \<and> (\<forall>c \<in> set ch. tag c = BRANCH \<or> tag c = TWIG)
      \<and> (\<forall>f \<in> set ps. tag f = FLOWER
            \<longrightarrow> (\<exists>g \<in> set (parts (fst ls)). tag g = FLOWER \<and> pos g = pos f))
      \<and> set new \<subseteq> occupied_step e i (fst ls)"
proof -
  obtain st bg fg where ls: "ls = (st, bg, fg)" by (cases ls) auto
  let ?p = "parts st ! i"
  let ?p' = "fst (snd (update e ?p st))"
  have i: "i < length (parts st)" using assms ls by simp
  obtain ch new sd where u:
    "snd (snd (update e ?p st))
       = st\<lparr>parts := parts st @ ch, treePositions := treePositions st @ new, seed := sd\<rparr>"
    "\<forall>c \<in> set ch. tag c = BRANCH \<or> tag c = TWIG"
    "new = [] \<or> new = [pos ?p'] \<and> tag ?p \<noteq> FLOWER"
    "fst (update e ?p st) \<longrightarrow> ch = [] \<and> new = []"
    using update_effect [of e ?p st] by blast
  have mem: "?p \<in> set (parts st)" using i by simp
  have occ: "set new \<subseteq> occupied_step e i st"
    using u(3) update_keeps_flower(1) [of e ?p st]
    by (auto simp: occupied_step_def Let_def split_beta)
  show ?thesis
  proof (cases "fst (update e ?p st)")
    case True
    have "fst (draw_step e i ls)
        = st\<lparr>parts := splice (parts st) i @ ch, treePositions := treePositions st @ new,
              seed := sd, treeLayer := treeLayer st @ []\<rparr>"
      using True u(1,4) by (simp add: ls draw_step.simps Let_def split_beta)
    moreover have "i \<le> length (splice (parts st) i)"
      using i by (simp add: length_splice)
    moreover have "\<forall>f \<in> set (splice (parts st) i). tag f = FLOWER
        \<longrightarrow> (\<exists>g \<in> set (parts st). tag g = FLOWER \<and> pos g = pos f)"
      using set_splice_subset [of "parts st" i] by blast
    ultimately show ?thesis using u(2) occ unfolding ls
      by (rule_tac x = "splice (parts st) i" in exI, rule_tac x = ch in exI,
          rule_tac x = new in exI, rule_tac x = sd in exI, rule_tac x = "[]" in exI) simp
  next
    case False
    let ?st2 = "st\<lparr>parts := (parts st)[i := ?p'] @ ch, treePositions := treePositions st @ new,
                    seed := sd\<rparr>"
    have st2: "(snd (snd (update e ?p st)))\<lparr>parts := (parts (snd (snd (update e ?p st))))[i := ?p']\<rparr>
        = ?st2"
      unfolding u(1) using i by (simp add: list_update_append1)
    obtain ink where d: "display e ?p' (treeLayer ?st2) (seed ?st2)
        = (treeLayer st @ ink, if tag ?p' = FLOWER then sd else Suc sd)"
      using display_effect [of e ?p' "treeLayer ?st2" "seed ?st2"] by auto
    have "fst (draw_step e i ls) = ?st2
        \<or> fst (draw_step e i ls) = ?st2\<lparr>treeLayer := treeLayer st @ ink, seed := Suc sd\<rparr>"
      using False st2 d
      by (simp add: ls draw_step.simps Let_def split_beta del: list_update_append1)
    then obtain ink' sd' where r: "fst (draw_step e i ls)
        = st\<lparr>parts := (parts st)[i := ?p'] @ ch, treePositions := treePositions st @ new,
              seed := sd', treeLayer := treeLayer st @ ink'\<rparr>"
    proof
      assume "fst (draw_step e i ls) = ?st2"
      then have "fst (draw_step e i ls)
        = st\<lparr>parts := (parts st)[i := ?p'] @ ch, treePositions := treePositions st @ new,
              seed := sd, treeLayer := treeLayer st @ []\<rparr>" by simp
      then show ?thesis by (rule that)
    next
      assume "fst (draw_step e i ls) = ?st2\<lparr>treeLayer := treeLayer st @ ink, seed := Suc sd\<rparr>"
      then have "fst (draw_step e i ls)
        = st\<lparr>parts := (parts st)[i := ?p'] @ ch, treePositions := treePositions st @ new,
              seed := Suc sd, treeLayer := treeLayer st @ ink\<rparr>" by simp
      then show ?thesis by (rule that)
    qed
    have fl: "\<forall>f \<in> set ((parts st)[i := ?p']). tag f = FLOWER
        \<longrightarrow> (\<exists>g \<in> set (parts st). tag g = FLOWER \<and> pos g = pos f)"
    proof (intro ballI impI)
      fix f assume f: "f \<in> set ((parts st)[i := ?p'])" "tag f = FLOWER"
      then have "f = ?p' \<or> f \<in> set (parts st)"
        using set_update_subset_insert [of "parts st" i ?p'] by auto
      then show "\<exists>g \<in> set (parts st). tag g = FLOWER \<and> pos g = pos f"
      proof
        assume e: "f = ?p'"
        then have t: "tag ?p = FLOWER" using f(2) update_keeps_flower(1) [of e ?p st] by simp
        then have "pos ?p = pos f" using e update_keeps_flower(2) [of ?p e st] by simp
        then show ?thesis using t mem by (intro bexI [of _ ?p]) simp_all
      next
        assume "f \<in> set (parts st)"
        then show ?thesis using f(2) by blast
      qed
    qed
    show ?thesis using r fl u(2) occ i unfolding ls
      by (rule_tac x = "(parts st)[i := ?p']" in exI, rule_tac x = ch in exI,
          rule_tac x = new in exI, rule_tac x = sd' in exI, rule_tac x = ink' in exI) simp
  qed
qed

lemma draw_step_records:
  "treePositions (fst (draw_step e i (st, bg, fg)))
     = treePositions (snd (snd (update e (parts st ! i) st)))"
  by (simp add: draw_step.simps Let_def split_beta)

lemma draw_step_p0_records:
  "treePositions (draw_step_p0 e i st) = treePositions (snd (snd (update_p0 e (parts st ! i) st)))"
  by (simp add: draw_step_p0_def Let_def split_beta)

lemma draw_step_p0_effect:
  assumes "i < length (parts st)"
  shows "\<exists>ps ch new sd ink. draw_step_p0 e i st
        = st\<lparr>parts := ps @ ch, treePositions := treePositions st @ new, seed := sd,
              canvas := canvas st @ ink\<rparr>
      \<and> i \<le> length ps
      \<and> (\<forall>c \<in> set ch. tag c = BRANCH)
      \<and> (\<forall>f \<in> set ps. tag f = FLOWER \<longrightarrow> (\<exists>g \<in> set (parts st). tag g = FLOWER \<and> pos g = pos f))
      \<and> set new \<subseteq> occupied_step_p0 e i st"
proof -
  let ?p = "parts st ! i"
  let ?p' = "fst (snd (update_p0 e ?p st))"
  obtain ch new sd where u:
    "snd (snd (update_p0 e ?p st))
       = st\<lparr>parts := parts st @ ch, treePositions := treePositions st @ new, seed := sd\<rparr>"
    "\<forall>c \<in> set ch. tag c = BRANCH"
    "new = [] \<or> new = [pos ?p'] \<and> tag ?p \<noteq> FLOWER"
    "fst (update_p0 e ?p st) \<longrightarrow> ch = []"
    using update_p0_effect [of e ?p st] by blast
  have mem: "?p \<in> set (parts st)" using assms by simp
  have occ: "set new \<subseteq> occupied_step_p0 e i st"
    using u(3) update_p0_keeps_flower(1) [of e ?p st]
    by (auto simp: occupied_step_p0_def Let_def split_beta)
  obtain ink where ink: "display_p0 e ?p' (canvas st) = canvas st @ ink"
    using display_p0_effect [of e ?p' "canvas st"] by blast
  show ?thesis
  proof (cases "fst (update_p0 e ?p st)")
    case True
    have "draw_step_p0 e i st
        = st\<lparr>parts := splice (parts st) i @ ch, treePositions := treePositions st @ new,
              seed := sd, canvas := canvas st @ (if tag ?p' = FLOWER then ink else [])\<rparr>"
      using True u(1,4) ink by (simp add: draw_step_p0_def Let_def split_beta)
    moreover have "i \<le> length (splice (parts st) i)"
      using assms by (simp add: length_splice)
    moreover have "\<forall>f \<in> set (splice (parts st) i). tag f = FLOWER
        \<longrightarrow> (\<exists>g \<in> set (parts st). tag g = FLOWER \<and> pos g = pos f)"
      using set_splice_subset [of "parts st" i] by blast
    ultimately show ?thesis using u(2) occ
      by (rule_tac x = "splice (parts st) i" in exI, rule_tac x = ch in exI,
          rule_tac x = new in exI, rule_tac x = sd in exI,
          rule_tac x = "if tag ?p' = FLOWER then ink else []" in exI) simp
  next
    case False
    have "draw_step_p0 e i st
        = st\<lparr>parts := (parts st)[i := ?p'] @ ch, treePositions := treePositions st @ new,
              seed := sd, canvas := canvas st @ ink\<rparr>"
      using False u(1) assms ink
      by (simp add: draw_step_p0_def Let_def split_beta list_update_append1)
    moreover have "\<forall>f \<in> set ((parts st)[i := ?p']). tag f = FLOWER
        \<longrightarrow> (\<exists>g \<in> set (parts st). tag g = FLOWER \<and> pos g = pos f)"
    proof (intro ballI impI)
      fix f assume f: "f \<in> set ((parts st)[i := ?p'])" "tag f = FLOWER"
      then have "f = ?p' \<or> f \<in> set (parts st)"
        using set_update_subset_insert [of "parts st" i ?p'] by auto
      then show "\<exists>g \<in> set (parts st). tag g = FLOWER \<and> pos g = pos f"
      proof
        assume e: "f = ?p'"
        then have t: "tag ?p = FLOWER" using f(2) update_p0_keeps_flower(1) [of e ?p st] by simp
        then have "pos ?p = pos f" using e update_p0_keeps_flower(2) [of ?p e st] by simp
        then show ?thesis using t mem by (intro bexI [of _ ?p]) simp_all
      next
        assume "f \<in> set (parts st)"
        then show ?thesis using f(2) by blast
      qed
    qed
    ultimately show ?thesis using u(2) occ assms
      by (rule_tac x = "(parts st)[i := ?p']" in exI, rule_tac x = ch in exI,
          rule_tac x = new in exI, rule_tac x = sd in exI, rule_tac x = ink in exI) simp
  qed
qed

lemma draw_parts_effect:
  "n \<le> length (parts (fst ls)) \<Longrightarrow>
   \<exists>ps new sd ink. fst (draw_parts e n ls)
        = (fst ls)\<lparr>parts := ps, treePositions := treePositions (fst ls) @ new, seed := sd,
                   treeLayer := treeLayer (fst ls) @ ink\<rparr>
      \<and> (\<forall>f \<in> set ps. tag f = FLOWER
            \<longrightarrow> (\<exists>g \<in> set (parts (fst ls)). tag g = FLOWER \<and> pos g = pos f))
      \<and> set new \<subseteq> occupied_parts e n ls"
proof (induction n arbitrary: ls)
  case 0
  have "fst (draw_parts e 0 ls)
      = (fst ls)\<lparr>parts := parts (fst ls), treePositions := treePositions (fst ls) @ [],
                 seed := seed (fst ls), treeLayer := treeLayer (fst ls) @ []\<rparr>"
    by simp
  then show ?case
    by (rule_tac x = "parts (fst ls)" in exI, rule_tac x = "[]" in exI,
        rule_tac x = "seed (fst ls)" in exI, rule_tac x = "[]" in exI) auto
next
  case (Suc n)
  let ?st = "fst ls"
  have i: "n < length (parts ?st)" using Suc.prems by simp
  obtain ps ch new sd ink where a:
    "fst (draw_step e n ls)
       = ?st\<lparr>parts := ps @ ch, treePositions := treePositions ?st @ new, seed := sd,
              treeLayer := treeLayer ?st @ ink\<rparr>"
    "n \<le> length ps"
    "\<forall>c \<in> set ch. tag c = BRANCH \<or> tag c = TWIG"
    "\<forall>f \<in> set ps. tag f = FLOWER \<longrightarrow> (\<exists>g \<in> set (parts ?st). tag g = FLOWER \<and> pos g = pos f)"
    "set new \<subseteq> occupied_step e n ?st"
    using draw_step_effect [OF i, of e] by blast
  let ?ls1 = "draw_step e n ls"
  let ?st1 = "fst ?ls1"
  have le: "n \<le> length (parts ?st1)" using a(1,2) by simp
  obtain ps' new' sd' ink' where b:
    "fst (draw_parts e n ?ls1)
       = ?st1\<lparr>parts := ps', treePositions := treePositions ?st1 @ new', seed := sd',
               treeLayer := treeLayer ?st1 @ ink'\<rparr>"
    "\<forall>f \<in> set ps'. tag f = FLOWER \<longrightarrow> (\<exists>g \<in> set (parts ?st1). tag g = FLOWER \<and> pos g = pos f)"
    "set new' \<subseteq> occupied_parts e n ?ls1"
    using Suc.IH [OF le] by blast
  have r: "fst (draw_parts e (Suc n) ls)
      = ?st\<lparr>parts := ps', treePositions := treePositions ?st @ (new @ new'), seed := sd',
             treeLayer := treeLayer ?st @ (ink @ ink')\<rparr>"
    using b(1) unfolding a(1) by simp
  have f: "\<forall>f \<in> set ps'. tag f = FLOWER
      \<longrightarrow> (\<exists>g \<in> set (parts ?st). tag g = FLOWER \<and> pos g = pos f)"
  proof (intro ballI impI)
    fix f assume f: "f \<in> set ps'" "tag f = FLOWER"
    then obtain g where g: "g \<in> set (ps @ ch)" "tag g = FLOWER" "pos g = pos f"
      using b(2) unfolding a(1) by auto
    then have "g \<in> set ps" using a(3) by auto
    then obtain g' where "g' \<in> set (parts ?st)" "tag g' = FLOWER" "pos g' = pos g"
      using a(4) g(2) by blast
    then show "\<exists>g \<in> set (parts ?st). tag g = FLOWER \<and> pos g = pos f"
      using g(3) by (intro bexI [of _ g']) simp_all
  qed
  have p: "set (new @ new') \<subseteq> occupied_parts e (Suc n) ls"
    using a(5) b(3) by auto
  show ?case using r f p
    by (rule_tac x = ps' in exI, rule_tac x = "new @ new'" in exI, rule_tac x = sd' in exI,
        rule_tac x = "ink @ ink'" in exI) simp
qed

lemma draw_parts_p0_effect:
  "n \<le> length (parts st) \<Longrightarrow>
   \<exists>ps new sd ink. draw_parts_p0 e n st
        = st\<lparr>parts := ps, treePositions := treePositions st @ new, seed := sd,
              canvas := canvas st @ ink\<rparr>
      \<and> (\<forall>f \<in> set ps. tag f = FLOWER \<longrightarrow> (\<exists>g \<in> set (parts st). tag g = FLOWER \<and> pos g = pos f))
      \<and> set new \<subseteq> occupied_parts_p0 e n st"
proof (induction n arbitrary: st)
  case 0
  have "draw_parts_p0 e 0 st
      = st\<lparr>parts := parts st, treePositions := treePositions st @ [], seed := seed st,
            canvas := canvas st @ []\<rparr>"
    by simp
  then show ?case
    by (rule_tac x = "parts st" in exI, rule_tac x = "[]" in exI, rule_tac x = "seed st" in exI,
        rule_tac x = "[]" in exI) auto
next
  case (Suc n)
  then have i: "n < length (parts st)" by simp
  obtain ps ch new sd ink where a:
    "draw_step_p0 e n st
       = st\<lparr>parts := ps @ ch, treePositions := treePositions st @ new, seed := sd,
             canvas := canvas st @ ink\<rparr>"
    "n \<le> length ps"
    "\<forall>c \<in> set ch. tag c = BRANCH"
    "\<forall>f \<in> set ps. tag f = FLOWER \<longrightarrow> (\<exists>g \<in> set (parts st). tag g = FLOWER \<and> pos g = pos f)"
    "set new \<subseteq> occupied_step_p0 e n st"
    using draw_step_p0_effect [OF i, of e] by blast
  let ?st1 = "draw_step_p0 e n st"
  have le: "n \<le> length (parts ?st1)" using a(1,2) by simp
  obtain ps' new' sd' ink' where b:
    "draw_parts_p0 e n ?st1
       = ?st1\<lparr>parts := ps', treePositions := treePositions ?st1 @ new', seed := sd',
               canvas := canvas ?st1 @ ink'\<rparr>"
    "\<forall>f \<in> set ps'. tag f = FLOWER \<longrightarrow> (\<exists>g \<in> set (parts ?st1). tag g = FLOWER \<and> pos g = pos f)"
    "set new' \<subseteq> occupied_parts_p0 e n ?st1"
    using Suc.IH [OF le] by blast
  have r: "draw_parts_p0 e (Suc n) st
      = st\<lparr>parts := ps', treePositions := treePositions st @ (new @ new'), seed := sd',
            canvas := canvas st @ (ink @ ink')\<rparr>"
    using b(1) by (simp add: a(1))
  have f: "\<forall>f \<in> set ps'. tag f = FLOWER
      \<longrightarrow> (\<exists>g \<in> set (parts st). tag g = FLOWER \<and> pos g = pos f)"
  proof (intro ballI impI)
    fix f assume f: "f \<in> set ps'" "tag f = FLOWER"
    then obtain g where g: "g \<in> set (ps @ ch)" "tag g = FLOWER" "pos g = pos f"
      using b(2) unfolding a(1) by auto
    then have "g \<in> set ps" using a(3) by auto
    then obtain g' where "g' \<in> set (parts st)" "tag g' = FLOWER" "pos g' = pos g"
      using a(4) g(2) by blast
    then show "\<exists>g \<in> set (parts st). tag g = FLOWER \<and> pos g = pos f"
      using g(3) by (intro bexI [of _ g']) simp_all
  qed
  have p: "set (new @ new') \<subseteq> occupied_parts_p0 e (Suc n) st"
    using a(5) b(3) by auto
  show ?case using r f p
    by (rule_tac x = ps' in exI, rule_tac x = "new @ new'" in exI, rule_tac x = sd' in exI,
        rule_tac x = "ink @ ink'" in exI) simp
qed

section \<open>Flowers bloom on the tree\<close>

lemma handle_any_effect:
  "\<exists>ps fl tps sd k w pv. handleHandInteraction e result st
        = st\<lparr>parts := ps @ fl, treePositions := tps, seed := sd, fingerStillFrames := k,
               wandPos := w, prevIndexPos := pv\<rparr>
      \<and> map pos ps = map pos (parts st) \<and> map tag ps = map tag (parts st)
      \<and> (\<forall>f \<in> set fl. tag f = FLOWER \<and> pos f \<in> set (treePositions st))
      \<and> set tps \<subseteq> set (treePositions st)
      \<and> mset (treePositions st) = mset tps + mset (map pos fl)"
proof (cases result)
  case Nil
  have "handleHandInteraction e [] st
      = st\<lparr>parts := parts st @ [], treePositions := treePositions st, seed := seed st,
            fingerStillFrames := 0, wandPos := None, prevIndexPos := None\<rparr>"
    by (simp add: handleHandInteraction_def)
  then show ?thesis unfolding Nil
    by (rule_tac x = "parts st" in exI, rule_tac x = "[]" in exI,
        rule_tac x = "treePositions st" in exI, rule_tac x = "seed st" in exI,
        rule_tac x = 0 in exI, rule_tac x = None in exI, rule_tac x = None in exI) simp
next
  case (Cons h hs)
  obtain ps fl tps sd k w where a:
    "handleHandInteraction e (h # hs) st
       = st\<lparr>parts := ps @ fl, treePositions := tps, seed := sd, fingerStillFrames := k,
              wandPos := w, prevIndexPos := Some ((1 - fst (h 8)) * width e, snd (h 8) * height e)\<rparr>"
    "map pos ps = map pos (parts st)" "map tag ps = map tag (parts st)"
    "\<forall>f \<in> set fl. tag f = FLOWER"
    "mset (treePositions st) = mset tps + mset (map pos fl)"
    using handle_effect [OF refl refl refl, of e h hs st] by blast
  have s: "set (treePositions st) = set tps \<union> pos ` set fl"
    using a(5) by (metis set_mset_mset set_mset_union set_map)
  show ?thesis unfolding Cons using a(1,2,3,4,5) s
    by (rule_tac x = ps in exI, rule_tac x = fl in exI, rule_tac x = tps in exI,
        rule_tac x = sd in exI, rule_tac x = k in exI, rule_tac x = w in exI,
        rule_tac x = "Some ((1 - fst (h 8)) * width e, snd (h 8) * height e)" in exI) auto
qed

lemma handle_p0_any_effect:
  "\<exists>fl tps sd pv. handleHandInteraction_p0 e result st
        = st\<lparr>parts := parts st @ fl, treePositions := tps, seed := sd, prevHandPos := pv\<rparr>
      \<and> (\<forall>f \<in> set fl. tag f = FLOWER \<and> pos f \<in> set (treePositions st))
      \<and> set tps \<subseteq> set (treePositions st)
      \<and> mset (treePositions st) = mset tps + mset (map pos fl)"
proof (cases result)
  case Nil
  have "handleHandInteraction_p0 e [] st
      = st\<lparr>parts := parts st @ [], treePositions := treePositions st, seed := seed st,
            prevHandPos := None\<rparr>"
    by (simp add: handleHandInteraction_p0_def)
  then show ?thesis unfolding Nil
    by (rule_tac x = "[]" in exI, rule_tac x = "treePositions st" in exI,
        rule_tac x = "seed st" in exI, rule_tac x = None in exI) simp
next
  case (Cons h hs)
  obtain fl tps sd where a:
    "handleHandInteraction_p0 e (h # hs) st
       = st\<lparr>parts := parts st @ fl, treePositions := tps, seed := sd,
              prevHandPos := Some ((1 - fst (h 8)) * width e, snd (h 8) * height e)\<rparr>"
    "\<forall>f \<in> set fl. tag f = FLOWER"
    "mset (treePositions st) = mset tps + mset (map pos fl)"
    using handle_p0_effect [OF refl refl refl refl, of e h hs st] by blast
  have s: "set (treePositions st) = set tps \<union> pos ` set fl"
    using a(3) by (metis set_mset_mset set_mset_union set_map)
  show ?thesis unfolding Cons using a(1,2,3) s
    by (rule_tac x = fl in exI, rule_tac x = tps in exI, rule_tac x = sd in exI,
        rule_tac x = "Some ((1 - fst (h 8)) * width e, snd (h 8) * height e)" in exI) auto
qed

lemma same_pos_tag_member:
  assumes "map pos ps = map pos qs" and "map tag ps = map tag qs" and "f \<in> set ps"
  shows "\<exists>g \<in> set qs. tag g = tag f \<and> pos g = pos f"
proof -
  have l: "length ps = length qs" using assms(1) by (rule map_eq_imp_length_eq)
  obtain i where i: "i < length ps" "ps ! i = f" using assms(3) by (auto simp: in_set_conv_nth)
  have "pos (qs ! i) = pos (ps ! i)" "tag (qs ! i) = tag (ps ! i)"
    using assms(1,2) i(1) l by (metis nth_map)+
  then show ?thesis using i l by (intro bexI [of _ "qs ! i"]) simp_all
qed

text \<open>What the hand-tracking part of the frame callback changes.\<close>

lemma processHandTracking_effect:
  "\<exists>ps fl tps sd k w pv t. processHandTracking e inp st
        = st\<lparr>parts := ps @ fl, treePositions := tps, seed := sd, fingerStillFrames := k,
               wandPos := w, prevIndexPos := pv, lastVideoTime := t\<rparr>
      \<and> map pos ps = map pos (parts st) \<and> map tag ps = map tag (parts st)
      \<and> (\<forall>f \<in> set fl. tag f = FLOWER \<and> pos f \<in> set (treePositions st))
      \<and> set tps \<subseteq> set (treePositions st)
      \<and> mset (treePositions st) = mset tps + mset (map pos fl)"
proof -
  let ?st1 = "st\<lparr>lastVideoTime := currentTime inp\<rparr>"
  have "processHandTracking e inp st = st \<or> processHandTracking e inp st = ?st1
      \<or> (\<exists>result. processHandTracking e inp st = handleHandInteraction e result ?st1)"
    by (auto simp: processHandTracking_def Let_def split: option.splits)
  then consider (idle) "processHandTracking e inp st = st"
    | (threw) "processHandTracking e inp st = ?st1"
    | (ran) result where "processHandTracking e inp st = handleHandInteraction e result ?st1"
    by blast
  then show ?thesis
  proof cases
    case idle
    show ?thesis unfolding idle
      by (rule_tac x = "parts st" in exI, rule_tac x = "[]" in exI,
          rule_tac x = "treePositions st" in exI, rule_tac x = "seed st" in exI,
          rule_tac x = "fingerStillFrames st" in exI, rule_tac x = "wandPos st" in exI,
          rule_tac x = "prevIndexPos st" in exI, rule_tac x = "lastVideoTime st" in exI) simp
  next
    case threw
    show ?thesis unfolding threw
      by (rule_tac x = "parts st" in exI, rule_tac x = "[]" in exI,
          rule_tac x = "treePositions st" in exI, rule_tac x = "seed st" in exI,
          rule_tac x = "fingerStillFrames st" in exI, rule_tac x = "wandPos st" in exI,
          rule_tac x = "prevIndexPos st" in exI, rule_tac x = "currentTime inp" in exI) simp
  next
    case ran
    obtain ps fl tps sd k w pv where a:
      "handleHandInteraction e result ?st1
         = ?st1\<lparr>parts := ps @ fl, treePositions := tps, seed := sd, fingerStillFrames := k,
                wandPos := w, prevIndexPos := pv\<rparr>"
      "map pos ps = map pos (parts ?st1)" "map tag ps = map tag (parts ?st1)"
      "\<forall>f \<in> set fl. tag f = FLOWER \<and> pos f \<in> set (treePositions ?st1)"
      "set tps \<subseteq> set (treePositions ?st1)"
      "mset (treePositions ?st1) = mset tps + mset (map pos fl)"
      using handle_any_effect [of e result ?st1] by blast
    have "processHandTracking e inp st
        = st\<lparr>parts := ps @ fl, treePositions := tps, seed := sd, fingerStillFrames := k,
              wandPos := w, prevIndexPos := pv, lastVideoTime := currentTime inp\<rparr>"
      unfolding ran a(1) by simp
    then show ?thesis using a(2-6)
      by (rule_tac x = ps in exI, rule_tac x = fl in exI, rule_tac x = tps in exI,
          rule_tac x = sd in exI, rule_tac x = k in exI, rule_tac x = w in exI,
          rule_tac x = pv in exI, rule_tac x = "currentTime inp" in exI) simp
  qed
qed

lemma processHandTracking_p0_effect:
  "\<exists>fl tps sd pv t. processHandTracking_p0 e inp st
        = st\<lparr>parts := parts st @ fl, treePositions := tps, seed := sd, prevHandPos := pv,
               lastVideoTime := t\<rparr>
      \<and> (\<forall>f \<in> set fl. tag f = FLOWER \<and> pos f \<in> set (treePositions st))
      \<and> set tps \<subseteq> set (treePositions st)
      \<and> mset (treePositions st) = mset tps + mset (map pos fl)"
proof -
  let ?st1 = "st\<lparr>lastVideoTime := currentTime inp\<rparr>"
  have "processHandTracking_p0 e inp st = st \<or> processHandTracking_p0 e inp st = ?st1
      \<or> (\<exists>result. processHandTracking_p0 e inp st = handleHandInteraction_p0 e result ?st1)"
    by (auto simp: processHandTracking_p0_def Let_def split: option.splits)
  then consider (idle) "processHandTracking_p0 e inp st = st"
    | (threw) "processHandTracking_p0 e inp st = ?st1"
    | (ran) result where "processHandTracking_p0 e inp st = handleHandInteraction_p0 e result ?st1"
    by blast
  then show ?thesis
  proof cases
    case idle
    show ?thesis unfolding idle
      by (rule_tac x = "[]" in exI, rule_tac x = "treePositions st" in exI,
          rule_tac x = "seed st" in exI, rule_tac x = "prevHandPos st" in exI,
          rule_tac x = "lastVideoTime st" in exI) simp
  next
    case threw
    show ?thesis unfolding threw
      by (rule_tac x = "[]" in exI, rule_tac x = "treePositions st" in exI,
          rule_tac x = "seed st" in exI, rule_tac x = "prevHandPos st" in exI,
          rule_tac x = "currentTime inp" in exI) simp
  next
    case ran
    obtain fl tps sd pv where a:
      "handleHandInteraction_p0 e result ?st1
         = ?st1\<lparr>parts := parts ?st1 @ fl, treePositions := tps, seed := sd, prevHandPos := pv\<rparr>"
      "\<forall>f \<in> set fl. tag f = FLOWER \<and> pos f \<in> set (treePositions ?st1)"
      "set tps \<subseteq> set (treePositions ?st1)"
      "mset (treePositions ?st1) = mset tps + mset (map pos fl)"
      using handle_p0_any_effect [of e result ?st1] by blast
    have "processHandTracking_p0 e inp st
        = st\<lparr>parts := parts st @ fl, treePositions := tps, seed := sd, prevHandPos := pv,
              lastVideoTime := currentTime inp\<rparr>"
      unfolding ran a(1) by simp
    then show ?thesis using a(2-4)
      by (rule_tac x = fl in exI, rule_tac x = tps in exI, rule_tac x = sd in exI,
          rule_tac x = pv in exI, rule_tac x = "currentTime inp" in exI) simp
  qed
qed

text \<open>What the rest of the frame callback changes, after the hand tracking.\<close>

lemma draw_effect:
  "\<exists>ps new sd ink cv. draw e inp st
        = (processHandTracking e inp st)
            \<lparr>parts := ps,
             treePositions := treePositions (processHandTracking e inp st) @ new,
             seed := sd, treeLayer := treeLayer st @ ink, canvas := cv\<rparr>
      \<and> (\<forall>f \<in> set ps. tag f = FLOWER
            \<longrightarrow> (\<exists>g \<in> set (parts (processHandTracking e inp st)).
                    tag g = FLOWER \<and> pos g = pos f))
      \<and> set new \<subseteq> occupied_draw e inp st"
proof -
  let ?T = "processHandTracking e inp st"
  let ?st2 = "?T\<lparr>canvas := treeLayer ?T\<rparr>"
  let ?L = "draw_parts e (length (parts ?st2)) (?st2, [], [])"
  have tl: "treeLayer ?T = treeLayer st"
    using processHandTracking_effect [of e inp st] by (elim exE conjE) simp
  obtain ps new sd ink where a:
    "fst ?L = ?st2\<lparr>parts := ps, treePositions := treePositions ?st2 @ new, seed := sd,
                   treeLayer := treeLayer ?st2 @ ink\<rparr>"
    "\<forall>f \<in> set ps. tag f = FLOWER \<longrightarrow> (\<exists>g \<in> set (parts ?st2). tag g = FLOWER \<and> pos g = pos f)"
    "set new \<subseteq> occupied_parts e (length (parts ?st2)) (?st2, [], [])"
    using draw_parts_effect [of "length (parts ?st2)" "(?st2, [], [])" e] by auto
  let ?st4 = "display_all e (fst (snd ?L)) (fst ?L)"
  let ?st5 = "display_all e (snd (snd ?L)) ?st4"
  obtain c4 s4 where d4: "?st4 = (fst ?L)\<lparr>canvas := c4, seed := s4\<rparr>"
    using display_all_effect [of e "fst (snd ?L)" "fst ?L"] by blast
  obtain c5 s5 where d5: "?st5 = ?st4\<lparr>canvas := c5, seed := s5\<rparr>"
    using display_all_effect [of e "snd (snd ?L)" ?st4] by blast
  have st5: "?st5 = (fst ?L)\<lparr>canvas := c5, seed := s5\<rparr>"
    using d5 unfolding d4 by simp
  have d: "draw e inp st
      = (case wandPos ?st5 of None \<Rightarrow> ?st5 | Some w \<Rightarrow> ?st5\<lparr>canvas := drawWand w (canvas ?st5)\<rparr>)"
    by (simp add: draw_def Let_def split_beta)
  obtain cv where "draw e inp st = (fst ?L)\<lparr>canvas := cv, seed := s5\<rparr>"
  proof (cases "wandPos ?st5")
    case None
    then have "draw e inp st = (fst ?L)\<lparr>canvas := c5, seed := s5\<rparr>"
      unfolding d using st5 by simp
    then show ?thesis by (rule that)
  next
    case (Some w)
    then have "draw e inp st = ?st5\<lparr>canvas := drawWand w (canvas ?st5)\<rparr>"
      unfolding d by simp
    then have "draw e inp st = (fst ?L)\<lparr>canvas := drawWand w (canvas ?st5), seed := s5\<rparr>"
      using st5 by simp
    then show ?thesis by (rule that)
  qed
  then have r: "draw e inp st
      = ?T\<lparr>parts := ps, treePositions := treePositions ?T @ new, seed := s5,
            treeLayer := treeLayer st @ ink, canvas := cv\<rparr>"
    unfolding a(1) using tl by simp
  have o: "set new \<subseteq> occupied_draw e inp st"
    using a(3) by (simp add: occupied_draw_def Let_def)
  have f: "\<forall>f \<in> set ps. tag f = FLOWER \<longrightarrow> (\<exists>g \<in> set (parts ?T). tag g = FLOWER \<and> pos g = pos f)"
    using a(2) by simp
  show ?thesis using r f o
    by (rule_tac x = ps in exI, rule_tac x = new in exI, rule_tac x = s5 in exI,
        rule_tac x = ink in exI, rule_tac x = cv in exI) simp
qed

lemma draw_p0_effect:
  "\<exists>ps new sd ink. draw_p0 e inp st
        = (processHandTracking_p0 e inp st)
            \<lparr>parts := ps,
             treePositions := treePositions (processHandTracking_p0 e inp st) @ new,
             seed := sd, canvas := canvas st @ ink\<rparr>
      \<and> (\<forall>f \<in> set ps. tag f = FLOWER
            \<longrightarrow> (\<exists>g \<in> set (parts (processHandTracking_p0 e inp st)).
                    tag g = FLOWER \<and> pos g = pos f))
      \<and> set new \<subseteq> occupied_draw_p0 e inp st"
proof -
  let ?T = "processHandTracking_p0 e inp st"
  have cv: "canvas ?T = canvas st"
    using processHandTracking_p0_effect [of e inp st] by (elim exE conjE) simp
  obtain ps new sd ink where a:
    "draw_parts_p0 e (length (parts ?T)) ?T
       = ?T\<lparr>parts := ps, treePositions := treePositions ?T @ new, seed := sd,
             canvas := canvas ?T @ ink\<rparr>"
    "\<forall>f \<in> set ps. tag f = FLOWER \<longrightarrow> (\<exists>g \<in> set (parts ?T). tag g = FLOWER \<and> pos g = pos f)"
    "set new \<subseteq> occupied_parts_p0 e (length (parts ?T)) ?T"
    using draw_parts_p0_effect [of "length (parts ?T)" ?T e] by auto
  have r: "draw_p0 e inp st
      = ?T\<lparr>parts := ps, treePositions := treePositions ?T @ new, seed := sd,
            canvas := canvas st @ ink\<rparr>"
    using a(1) cv by (simp add: draw_p0_def Let_def)
  have o: "set new \<subseteq> occupied_draw_p0 e inp st"
    using a(3) by (simp add: occupied_draw_p0_def Let_def)
  show ?thesis using r a(2) o
    by (rule_tac x = ps in exI, rule_tac x = new in exI, rule_tac x = sd in exI,
        rule_tac x = ink in exI) simp
qed

text \<open>
  The invariant of a run: every flower sits at a position of \<open>H\<close>, and every entry of
  \<^verbatim>\<open>treePositions\<close> is in \<open>H\<close> or is a position that a tree particle occupied.
\<close>

lemma draw_occupied:
  assumes "\<forall>f \<in> set (parts st). tag f = FLOWER \<longrightarrow> pos f \<in> H"
    and "set (treePositions st) \<subseteq> H"
  shows "\<forall>f \<in> set (parts (draw e inp st)). tag f = FLOWER \<longrightarrow> pos f \<in> H"
    and "set (treePositions (draw e inp st)) \<subseteq> H \<union> occupied_draw e inp st"
proof -
  let ?T = "processHandTracking e inp st"
  obtain qs fl tps sd k w pv t where a:
    "?T = st\<lparr>parts := qs @ fl, treePositions := tps, seed := sd, fingerStillFrames := k,
             wandPos := w, prevIndexPos := pv, lastVideoTime := t\<rparr>"
    "map pos qs = map pos (parts st)" "map tag qs = map tag (parts st)"
    "\<forall>f \<in> set fl. tag f = FLOWER \<and> pos f \<in> set (treePositions st)"
    "set tps \<subseteq> set (treePositions st)"
    using processHandTracking_effect [of e inp st] by blast
  have pT: "parts ?T = qs @ fl" and tT: "treePositions ?T = tps" by (subst a(1), simp)+
  obtain ps new sd' ink cv where b:
    "draw e inp st = ?T\<lparr>parts := ps, treePositions := treePositions ?T @ new, seed := sd',
                        treeLayer := treeLayer st @ ink, canvas := cv\<rparr>"
    "\<forall>f \<in> set ps. tag f = FLOWER \<longrightarrow> (\<exists>g \<in> set (parts ?T). tag g = FLOWER \<and> pos g = pos f)"
    "set new \<subseteq> occupied_draw e inp st"
    using draw_effect [of e inp st] by blast
  have pd: "parts (draw e inp st) = ps" and td: "treePositions (draw e inp st) = tps @ new"
    by (subst b(1), simp add: tT)+
  show "\<forall>f \<in> set (parts (draw e inp st)). tag f = FLOWER \<longrightarrow> pos f \<in> H"
  proof (intro ballI impI)
    fix f assume f: "f \<in> set (parts (draw e inp st))" "tag f = FLOWER"
    then obtain g where g: "g \<in> set (qs @ fl)" "tag g = FLOWER" "pos g = pos f"
      using b(2) pd pT by auto
    then consider "g \<in> set qs" | "g \<in> set fl" by auto
    then have "pos g \<in> H"
    proof cases
      case 1
      then obtain g' where "g' \<in> set (parts st)" "tag g' = tag g" "pos g' = pos g"
        using same_pos_tag_member [of qs "parts st" g] a(2,3) by auto
      then show ?thesis using assms(1) g(2) by auto
    next
      case 2
      then show ?thesis using a(4) assms(2) by auto
    qed
    then show "pos f \<in> H" using g(3) by simp
  qed
  show "set (treePositions (draw e inp st)) \<subseteq> H \<union> occupied_draw e inp st"
    unfolding td using a(5) assms(2) b(3) by auto
qed

lemma processHandTracking_occupied:
  assumes "\<forall>f \<in> set (parts st). tag f = FLOWER \<longrightarrow> pos f \<in> H"
    and "set (treePositions st) \<subseteq> H"
  shows "\<forall>f \<in> set (parts (processHandTracking e inp st)). tag f = FLOWER \<longrightarrow> pos f \<in> H"
proof -
  let ?T = "processHandTracking e inp st"
  obtain qs fl tps sd k w pv t where a:
    "?T = st\<lparr>parts := qs @ fl, treePositions := tps, seed := sd, fingerStillFrames := k,
             wandPos := w, prevIndexPos := pv, lastVideoTime := t\<rparr>"
    "map pos qs = map pos (parts st)" "map tag qs = map tag (parts st)"
    "\<forall>f \<in> set fl. tag f = FLOWER \<and> pos f \<in> set (treePositions st)"
    using processHandTracking_effect [of e inp st] by blast
  have pT: "parts ?T = qs @ fl" by (subst a(1)) simp
  show ?thesis
  proof (intro ballI impI)
    fix f assume f: "f \<in> set (parts ?T)" "tag f = FLOWER"
    then consider "f \<in> set qs" | "f \<in> set fl" unfolding pT by auto
    then show "pos f \<in> H"
    proof cases
      case 1
      then obtain g where "g \<in> set (parts st)" "tag g = tag f" "pos g = pos f"
        using same_pos_tag_member [of qs "parts st" f] a(2,3) by auto
      then show ?thesis using assms(1) f(2) by auto
    next
      case 2
      then show ?thesis using a(4) assms(2) by auto
    qed
  qed
qed

lemma processHandTracking_p0_occupied:
  assumes "\<forall>f \<in> set (parts st). tag f = FLOWER \<longrightarrow> pos f \<in> H"
    and "set (treePositions st) \<subseteq> H"
  shows "\<forall>f \<in> set (parts (processHandTracking_p0 e inp st)). tag f = FLOWER \<longrightarrow> pos f \<in> H"
proof -
  let ?T = "processHandTracking_p0 e inp st"
  obtain fl tps sd pv t where a:
    "?T = st\<lparr>parts := parts st @ fl, treePositions := tps, seed := sd, prevHandPos := pv,
             lastVideoTime := t\<rparr>"
    "\<forall>f \<in> set fl. tag f = FLOWER \<and> pos f \<in> set (treePositions st)"
    using processHandTracking_p0_effect [of e inp st] by blast
  have pT: "parts ?T = parts st @ fl" by (subst a(1)) simp
  show ?thesis unfolding pT using assms a(2) by auto
qed

lemma frames_occupied:
  "\<forall>f \<in> set (parts st). tag f = FLOWER \<longrightarrow> pos f \<in> H \<Longrightarrow> set (treePositions st) \<subseteq> H \<Longrightarrow>
   (\<forall>f \<in> set (parts (frames fs st)). tag f = FLOWER \<longrightarrow> pos f \<in> H \<union> occupied fs st)
   \<and> set (treePositions (frames fs st)) \<subseteq> H \<union> occupied fs st"
proof (induction fs arbitrary: st H)
  case Nil
  then show ?case by simp
next
  case (Cons fr fs)
  let ?H = "H \<union> occupied_draw (fst fr) (snd fr) st"
  have "\<forall>f \<in> set (parts (draw (fst fr) (snd fr) st)). tag f = FLOWER \<longrightarrow> pos f \<in> ?H"
    using draw_occupied(1) [OF Cons.prems, of "fst fr" "snd fr"] by simp
  moreover have "set (treePositions (draw (fst fr) (snd fr) st)) \<subseteq> ?H"
    by (rule draw_occupied(2) [OF Cons.prems])
  ultimately show ?case using Cons.IH [of "draw (fst fr) (snd fr) st" ?H]
    by (simp add: Un_assoc)
qed

lemma draw_p0_occupied:
  assumes "\<forall>f \<in> set (parts st). tag f = FLOWER \<longrightarrow> pos f \<in> H"
    and "set (treePositions st) \<subseteq> H"
  shows "\<forall>f \<in> set (parts (draw_p0 e inp st)). tag f = FLOWER \<longrightarrow> pos f \<in> H"
    and "set (treePositions (draw_p0 e inp st)) \<subseteq> H \<union> occupied_draw_p0 e inp st"
proof -
  let ?T = "processHandTracking_p0 e inp st"
  obtain fl tps sd pv t where a:
    "?T = st\<lparr>parts := parts st @ fl, treePositions := tps, seed := sd, prevHandPos := pv,
             lastVideoTime := t\<rparr>"
    "\<forall>f \<in> set fl. tag f = FLOWER \<and> pos f \<in> set (treePositions st)"
    "set tps \<subseteq> set (treePositions st)"
    using processHandTracking_p0_effect [of e inp st] by blast
  have pT: "parts ?T = parts st @ fl" and tT: "treePositions ?T = tps" by (subst a(1), simp)+
  obtain ps new sd' ink where b:
    "draw_p0 e inp st = ?T\<lparr>parts := ps, treePositions := treePositions ?T @ new, seed := sd',
                           canvas := canvas st @ ink\<rparr>"
    "\<forall>f \<in> set ps. tag f = FLOWER \<longrightarrow> (\<exists>g \<in> set (parts ?T). tag g = FLOWER \<and> pos g = pos f)"
    "set new \<subseteq> occupied_draw_p0 e inp st"
    using draw_p0_effect [of e inp st] by blast
  have pd: "parts (draw_p0 e inp st) = ps" and td: "treePositions (draw_p0 e inp st) = tps @ new"
    by (subst b(1), simp add: tT)+
  show "\<forall>f \<in> set (parts (draw_p0 e inp st)). tag f = FLOWER \<longrightarrow> pos f \<in> H"
  proof (intro ballI impI)
    fix f assume f: "f \<in> set (parts (draw_p0 e inp st))" "tag f = FLOWER"
    then obtain g where g: "g \<in> set (parts st @ fl)" "tag g = FLOWER" "pos g = pos f"
      using b(2) pd pT by auto
    then have "pos g \<in> H" using assms a(2) by auto
    then show "pos f \<in> H" using g(3) by simp
  qed
  show "set (treePositions (draw_p0 e inp st)) \<subseteq> H \<union> occupied_draw_p0 e inp st"
    unfolding td using a(3) assms(2) b(3) by auto
qed

lemma frames_p0_occupied:
  "\<forall>f \<in> set (parts st). tag f = FLOWER \<longrightarrow> pos f \<in> H \<Longrightarrow> set (treePositions st) \<subseteq> H \<Longrightarrow>
   (\<forall>f \<in> set (parts (frames_p0 fs st)). tag f = FLOWER \<longrightarrow> pos f \<in> H \<union> occupied_p0 fs st)
   \<and> set (treePositions (frames_p0 fs st)) \<subseteq> H \<union> occupied_p0 fs st"
proof (induction fs arbitrary: st H)
  case Nil
  then show ?case by simp
next
  case (Cons fr fs)
  let ?H = "H \<union> occupied_draw_p0 (fst fr) (snd fr) st"
  have "\<forall>f \<in> set (parts (draw_p0 (fst fr) (snd fr) st)). tag f = FLOWER \<longrightarrow> pos f \<in> ?H"
    using draw_p0_occupied(1) [OF Cons.prems, of "fst fr" "snd fr"] by simp
  moreover have "set (treePositions (draw_p0 (fst fr) (snd fr) st)) \<subseteq> ?H"
    by (rule draw_p0_occupied(2) [OF Cons.prems])
  ultimately show ?case using Cons.IH [of "draw_p0 (fst fr) (snd fr) st" ?H]
    by (simp add: Un_assoc)
qed

text \<open>Every flower sits where \<^verbatim>\<open>treePositions\<close> had an entry at some frame of the run.\<close>

lemma draw_flowers:
  assumes "\<forall>f \<in> set (parts st). tag f = FLOWER \<longrightarrow> pos f \<in> H"
  shows "\<forall>f \<in> set (parts (draw e inp st)). tag f = FLOWER \<longrightarrow> pos f \<in> H \<union> set (treePositions st)"
  using draw_occupied(1) [of st "H \<union> set (treePositions st)" e inp] assms by auto

lemma frames_flowers:
  "\<forall>f \<in> set (parts st). tag f = FLOWER \<longrightarrow> pos f \<in> H \<Longrightarrow>
   \<forall>f \<in> set (parts (frames fs st)). tag f = FLOWER \<longrightarrow> pos f \<in> H \<union> recorded fs st"
proof (induction fs arbitrary: st H)
  case Nil
  then show ?case by simp
next
  case (Cons fr fs)
  have "\<forall>f \<in> set (parts (draw (fst fr) (snd fr) st)). tag f = FLOWER
      \<longrightarrow> pos f \<in> H \<union> set (treePositions st)"
    by (rule draw_flowers [OF Cons.prems])
  from Cons.IH [OF this] show ?case by (simp add: Un_assoc)
qed

lemma draw_p0_flowers:
  assumes "\<forall>f \<in> set (parts st). tag f = FLOWER \<longrightarrow> pos f \<in> H"
  shows "\<forall>f \<in> set (parts (draw_p0 e inp st)). tag f = FLOWER \<longrightarrow> pos f \<in> H \<union> set (treePositions st)"
  using draw_p0_occupied(1) [of st "H \<union> set (treePositions st)" e inp] assms by auto

lemma frames_p0_flowers:
  "\<forall>f \<in> set (parts st). tag f = FLOWER \<longrightarrow> pos f \<in> H \<Longrightarrow>
   \<forall>f \<in> set (parts (frames_p0 fs st)). tag f = FLOWER \<longrightarrow> pos f \<in> H \<union> recorded_p0 fs st"
proof (induction fs arbitrary: st H)
  case Nil
  then show ?case by simp
next
  case (Cons fr fs)
  have "\<forall>f \<in> set (parts (draw_p0 (fst fr) (snd fr) st)). tag f = FLOWER
      \<longrightarrow> pos f \<in> H \<union> set (treePositions st)"
    by (rule draw_p0_flowers [OF Cons.prems])
  from Cons.IH [OF this] show ?case by (simp add: Un_assoc)
qed

lemma handle_spawned:
  assumes "x = (1 - fst (h 8)) * width e" and "y = snd (h 8) * height e"
    and "v = velocity_of e h st"
  shows "\<forall>f \<in> set (drop (length (parts st)) (parts (handleHandInteraction e (h # hs) st))).
           tag f = FLOWER \<and> pos f \<in> set (treePositions st)
           \<and> (\<exists>prev s. prevIndexPos st = Some prev \<and> s \<le> nat \<lceil>v / 10\<rceil>
                 \<and> near (probe prev x y (nat \<lceil>v / 10\<rceil>) s) (pos f) 30)"
proof -
  obtain ps fl tps sd k w where a:
    "handleHandInteraction e (h # hs) st
       = st\<lparr>parts := ps @ fl, treePositions := tps, seed := sd, fingerStillFrames := k,
              wandPos := w, prevIndexPos := Some (x, y)\<rparr>"
    "map pos ps = map pos (parts st)"
    "\<forall>f \<in> set fl. tag f = FLOWER
        \<and> (\<exists>prev s. prevIndexPos st = Some prev \<and> s \<le> nat \<lceil>v / 10\<rceil>
              \<and> near (probe prev x y (nat \<lceil>v / 10\<rceil>) s) (pos f) 30)"
    "mset (treePositions st) = mset tps + mset (map pos fl)"
    using handle_effect [OF assms, of hs] by blast
  have l: "length ps = length (parts st)" using a(2) by (rule map_eq_imp_length_eq)
  have s: "set (treePositions st) = set tps \<union> pos ` set fl"
    using a(4) by (metis set_mset_mset set_mset_union set_map)
  show ?thesis unfolding a(1) using a(3) l s by auto
qed

lemma handle_p0_spawned:
  assumes "x = (1 - fst (h 8)) * width e" and "y = snd (h 8) * height e"
    and "v = velocity_p0 e h st"
  shows "\<forall>f \<in> set (drop (length (parts st)) (parts (handleHandInteraction_p0 e (h # hs) st))).
           tag f = FLOWER \<and> pos f \<in> set (treePositions st)
           \<and> p_dist x y (fst (pos f)) (snd (pos f)) < (if v > 8 then 80 else 40)"
proof -
  obtain fl tps sd where a:
    "handleHandInteraction_p0 e (h # hs) st
       = st\<lparr>parts := parts st @ fl, treePositions := tps, seed := sd,
              prevHandPos := Some (x, y)\<rparr>"
    "\<forall>f \<in> set fl. tag f = FLOWER
        \<and> p_dist x y (fst (pos f)) (snd (pos f)) < (if v > 8 then 80 else 40)"
    "mset (treePositions st) = mset tps + mset (map pos fl)"
    using handle_p0_effect [OF assms refl, of hs] by blast
  have s: "set (treePositions st) = set tps \<union> pos ` set fl"
    using a(3) by (metis set_mset_mset set_mset_union set_map)
  show ?thesis unfolding a(1) using a(2) s by auto
qed

text \<open>The run \<open>run_bloom\<close>, frame by frame, in both revisions.\<close>

lemma trunk_update:
  assumes "tag p = TRUNK" and "dir p = 0" and "siz p > 0.9" and "asiz p = 100" and "spd p = 2"
    and "rnd e = (\<lambda>_. 1 / 2)"
  shows "update e p st
     = (False,
        p\<lparr>life := life p + 1, rsiz := 100 * siz p, pos := (fst (pos p) + 2, snd (pos p)),
          siz := siz p * (397 / 400)\<rparr>,
        if frameCount e mod 5 = 0 \<and> snd (pos p) < height e * 0.7
        then st\<lparr>treePositions := treePositions st @ [(fst (pos p) + 2, snd (pos p))],
                seed := seed st + 5\<rparr>
        else st\<lparr>seed := seed st + 5\<rparr>)"
  using assms
  by (simp add: update_def grow_def Let_def split_beta p_random_range_def p_random_max_def
      p_random_def p_radians_def p_lerp_def spawn_branch_def fork_branch_def spawn_twig_def)

lemma trunk_update_p0:
  assumes "tag p = TRUNK" and "dir p = 0" and "siz p > 0.9" and "asiz p = 50" and "spd p = 2"
    and "rnd e = (\<lambda>_. 1 / 2)"
  shows "update_p0 e p st
     = (False,
        p\<lparr>life := life p + 1, pos := (fst (pos p) + 2, snd (pos p)),
          siz := siz p * (397 / 400)\<rparr>,
        if frameCount e mod 4 = 0
        then st\<lparr>treePositions := treePositions st @ [(fst (pos p) + 2, snd (pos p))],
                seed := seed st + 5\<rparr>
        else st\<lparr>seed := seed st + 5\<rparr>)"
  using assms
  by (simp add: update_p0_def grow_p0_def curl_p0_def Let_def split_beta p_random_range_def
      p_random_max_def p_random_def p_radians_def p_lerp_def spawn_branch_p0_def
      fork_branch_p0_def)


lemma sprout_fields:
  "tag sprout = TRUNK" "dir sprout = 0" "siz sprout = 1" "asiz sprout = 100" "spd sprout = 2"
  "pos sprout = (400, 300)" "life sprout = 0"
  "tag sprout_p0 = TRUNK" "dir sprout_p0 = 0" "siz sprout_p0 = 1" "asiz sprout_p0 = 50"
  "spd sprout_p0 = 2" "pos sprout_p0 = (400, 300)" "life sprout_p0 = 0"
  by (simp_all add: sprout_def sprout_p0_def new_Particle_def new_Particle_p0_def Let_def
      split_beta)

lemma run_envs:
  "rnd env_first = (\<lambda>_. 1 / 2)" "rnd env_second = (\<lambda>_. 1 / 2)"
  "frameCount env_first = 20" "frameCount env_second = 21"
  "width env_first = 800" "height env_first = 600" "width env_second = 800"
  "height env_second = 600" "millis env_second = 1016"
  by (simp_all add: env_first_def env_second_def env0_def)

lemma first_tracking:
  "processHandTracking env_first frame_flat sketch_sprout
     = sketch_sprout\<lparr>lastVideoTime := 1, prevIndexPos := Some (400, 300),
         fingerStillFrames := 1, wandPos := Some (400, 300)\<rparr>"
  by (simp add: processHandTracking_def handleHandInteraction_def Let_def hand_flat_def
      sketch_sprout_def sketch0_def run_envs frame_flat_def velocity_of_def isPointing_def
      paint_def)

lemma first_frame:
  "draw env_first frame_flat sketch_sprout
     = sketch0\<lparr>parts := [sprout\<lparr>life := 1, rsiz := 100, pos := (402, 300), siz := 397 / 400\<rparr>],
         treePositions := [(402, 300)], lastVideoTime := 1, seed := 6,
         canvas := [Wand (400, 300)], prevIndexPos := Some (400, 300),
         fingerStillFrames := 1, wandPos := Some (400, 300)\<rparr>"
  unfolding draw_def first_tracking
  by (simp add: Let_def split_beta sketch_sprout_def sketch0_def draw_step.simps
      trunk_update sprout_fields run_envs display_def p_random_def drawWand_def)


lemma second_tracking:
  "processHandTracking env_second frame_reach (draw env_first frame_flat sketch_sprout)
     = sketch0\<lparr>parts := [sprout\<lparr>life := 1, rsiz := 100, pos := (402, 300), siz := 397 / 400\<rparr>,
                      fst (new_Particle env_second 402 300 ''#E2F0CB'' 10 0 0 0 FLOWER 7)],
         treePositions := [], lastVideoTime := 2, seed := 10,
         canvas := [Wand (400, 300)], prevIndexPos := Some (410, 300),
         fingerStillFrames := 0, wandPos := Some (402, 300)\<rparr>"
  unfolding first_frame
  by (simp add: processHandTracking_def handleHandInteraction_def Let_def hand_reach_def
      sketch0_def run_envs frame_reach_def velocity_of_def isPointing_def p_dist_horizontal
      paint_def probe_steps_def paint_probe_def probe_def near_def p_lerp_def spawnFlower_def
      splice_def split_beta handScreenSizeRatio_of_def vector_lerp_def p_map_def
      p_constrain_def p_random_choice_def PALETTE_flowers_def new_Particle_def
      p_random_max_def p_random_range_def PALETTE_stamens_def)


lemma second_frame:
  "map tag (parts (draw env_second frame_reach (draw env_first frame_flat sketch_sprout)))
     = [TRUNK, FLOWER]"
  "map pos (parts (draw env_second frame_reach (draw env_first frame_flat sketch_sprout)))
     = [(404, 300), (402, 300)]"
  unfolding draw_def [of env_second] second_tracking
  by (simp_all add: Let_def split_beta sketch0_def draw_step.simps numeral_2_eq_2
      trunk_update sprout_fields run_envs display_def p_random_def drawWand_def
      update_on_flower update_flower_keeps new_Particle_fields)

lemma run_occupied:
  "occupied run_bloom sketch_sprout = {(402, 300), (404, 300)}"
  unfolding run_bloom_def occupied.simps fst_conv snd_conv occupied_draw_def second_tracking
    first_tracking
  by (simp add: Let_def split_beta sketch0_def sketch_sprout_def draw_step.simps numeral_2_eq_2
      occupied_step_def
      trunk_update sprout_fields run_envs display_def p_random_def
      update_on_flower update_flower_keeps new_Particle_fields insert_commute)


lemma first_tracking_p0:
  "processHandTracking_p0 env_first frame_flat sketch_sprout_p0
     = sketch_sprout_p0\<lparr>lastVideoTime := 1, prevHandPos := Some (400, 300)\<rparr>"
  by (simp add: processHandTracking_p0_def handleHandInteraction_p0_def Let_def hand_flat_def
      sketch_sprout_p0_def sketch0_p0_def run_envs frame_flat_def)

lemma first_frame_p0:
  "draw_p0 env_first frame_flat sketch_sprout_p0
     = sketch0_p0\<lparr>parts := [sprout_p0\<lparr>life := 1, pos := (402, 300), siz := 397 / 400\<rparr>],
         treePositions := [(402, 300)], lastVideoTime := 1, seed := 5,
         canvas := [Circle (402, 300) (397 / 8) (col sprout_p0)],
         prevHandPos := Some (400, 300)\<rparr>"
  unfolding draw_p0_def first_tracking_p0
  by (simp add: Let_def split_beta sketch_sprout_p0_def sketch0_p0_def draw_step_p0_def
      trunk_update_p0 sprout_fields run_envs display_p0_def)

lemma second_tracking_p0:
  "processHandTracking_p0 env_second frame_reach (draw_p0 env_first frame_flat sketch_sprout_p0)
     = sketch0_p0\<lparr>parts := [sprout_p0\<lparr>life := 1, pos := (402, 300), siz := 397 / 400\<rparr>,
                      fst (new_Particle_p0 env_second 402 300 ''#B5EAD7'' 20 0 0 0 FLOWER 7)],
         treePositions := [], lastVideoTime := 2, seed := 8,
         canvas := [Circle (402, 300) (397 / 8) (col sprout_p0)],
         prevHandPos := Some (410, 300)\<rparr>"
  unfolding first_frame_p0
  by (simp add: processHandTracking_p0_def handleHandInteraction_p0_def Let_def hand_reach_def
      sketch0_p0_def run_envs frame_reach_def velocity_p0_def p_dist_horizontal
      bloomsNeeded_p0_def spawnFlower_p0_def splice_def split_beta
      p_random_choice_def PALETTE_flowers_p0_def new_Particle_p0_def
      p_random_max_def p_random_range_def)

lemma second_frame_p0:
  "map tag (parts (draw_p0 env_second frame_reach (draw_p0 env_first frame_flat sketch_sprout_p0)))
     = [TRUNK, FLOWER]"
  "map pos (parts (draw_p0 env_second frame_reach (draw_p0 env_first frame_flat sketch_sprout_p0)))
     = [(404, 300), (402, 300)]"
  unfolding draw_p0_def [of env_second] second_tracking_p0
  by (simp_all add: Let_def split_beta sketch0_p0_def draw_step_p0_def numeral_2_eq_2
      trunk_update_p0 sprout_fields run_envs display_p0_def
      update_p0_on_flower update_p0_keeps_flower update_p0_flower_step new_Particle_p0_fields)

lemma run_occupied_p0:
  "occupied_p0 run_bloom sketch_sprout_p0 = {(402, 300), (404, 300)}"
  unfolding run_bloom_def occupied_p0.simps fst_conv snd_conv occupied_draw_p0_def
    second_tracking_p0 first_tracking_p0
  by (simp add: Let_def split_beta sketch0_p0_def sketch_sprout_p0_def draw_step_p0_def
      numeral_2_eq_2 occupied_step_p0_def trunk_update_p0 sprout_fields run_envs display_p0_def
      update_p0_on_flower update_p0_keeps_flower update_p0_flower_step new_Particle_p0_fields
      insert_commute)

lemma first_occupied:
  "occupied [(env_first, frame_flat)] sketch_sprout = {(402, 300)}"
  "occupied_p0 [(env_first, frame_flat)] sketch_sprout_p0 = {(402, 300)}"
  unfolding occupied.simps occupied_p0.simps fst_conv snd_conv occupied_draw_def
    occupied_draw_p0_def first_tracking first_tracking_p0
  by (simp_all add: Let_def split_beta sketch0_def sketch_sprout_def sketch0_p0_def
      sketch_sprout_p0_def occupied_step_def occupied_step_p0_def trunk_update trunk_update_p0
      sprout_fields run_envs)

lemma occupied_step_eq:
  "occupied_step e i st
     = (if tag (parts st ! i) = FLOWER then {}
        else {pos (fst (snd (update e (parts st ! i) st)))})"
  "occupied_step_p0 e i sq
     = (if tag (parts sq ! i) = FLOWER then {}
        else {pos (fst (snd (update_p0 e (parts sq ! i) sq)))})"
  using update_keeps_flower(1) [of e "parts st ! i" st]
    update_p0_keeps_flower(1) [of e "parts sq ! i" sq]
  by (simp_all add: occupied_step_def occupied_step_p0_def Let_def split_beta)

text \<open>
  Claim C4. Start from a sketch state without flowers and without recorded positions, as
  after \<^verbatim>\<open>setup\<close>, and run any sequence of frames, whatever the hand does. Then every
  \<open>FLOWER\<close> in \<^verbatim>\<open>parts\<close> sits at a position that a tree particle occupied during the run:
  the position that a particle which is not a flower had right after one of its \<^verbatim>\<open>update\<close>
  calls in the particle loop of one of the frames (the set \<open>occupied\<close>); it is also a
  position that was an entry of \<^verbatim>\<open>treePositions\<close> after one of the frames. And the tree
  particle was there before the flower: right after the hand tracking of the next frame,
  which is where flowers are spawned, every flower sits at a position occupied in the
  frames before. One iteration
  of the particle loop appends to \<^verbatim>\<open>treePositions\<close> nothing or the position that the
  particle it updates has after that \<^verbatim>\<open>update\<close>; it appends exactly when the particle is
  not a flower and, in \<^verbatim>\<open>GenerativeTree.tsx\<close>, survives the update on a frame whose count
  is a multiple of 5 above the lowest 30 percent of the canvas, or, in \<^verbatim>\<open>part_000\<close>, on a
  frame whose count is a multiple of 4. And within one call of \<^verbatim>\<open>handleHandInteraction\<close>
  every particle added is a flower whose position is an entry of \<^verbatim>\<open>treePositions\<close> as it
  was before the call, less than 30 pixels from one of the probes interpolated between
  the previous and the current tip position (in \<^verbatim>\<open>part_000\<close>: less than the search radius,
  80 or 40, from the tip). In both revisions.
\<close>

theorem flowers_bloom_on_tree:
  assumes "\<forall>f \<in> set (parts st). tag f \<noteq> FLOWER" and "treePositions st = []"
    and "\<forall>f \<in> set (parts sq). tag f \<noteq> FLOWER" and "treePositions sq = []"
    and "x = (1 - fst (h 8)) * width e" and "y = snd (h 8) * height e"
  shows "(\<forall>f \<in> set (parts (frames fs st)). tag f = FLOWER
            \<longrightarrow> pos f \<in> occupied fs st \<and> pos f \<in> recorded fs st)
    \<and> (\<forall>f \<in> set (parts (processHandTracking e inp (frames fs st))). tag f = FLOWER
            \<longrightarrow> pos f \<in> occupied fs st)
    \<and> (\<forall>f \<in> set (parts (frames_p0 fs sq)). tag f = FLOWER
            \<longrightarrow> pos f \<in> occupied_p0 fs sq \<and> pos f \<in> recorded_p0 fs sq)
    \<and> (\<forall>f \<in> set (parts (processHandTracking_p0 e inp (frames_p0 fs sq))). tag f = FLOWER
            \<longrightarrow> pos f \<in> occupied_p0 fs sq)
    \<and> treePositions (fst (draw_step e i (s2, bg, fg)))
         = treePositions s2
           @ (if tag (parts s2 ! i) \<noteq> FLOWER \<and> \<not> fst (update e (parts s2 ! i) s2)
                 \<and> frameCount e mod 5 = 0
                 \<and> snd (pos (fst (snd (update e (parts s2 ! i) s2)))) < height e * 0.7
              then [pos (fst (snd (update e (parts s2 ! i) s2)))] else [])
    \<and> occupied_step e i s2
         = (if tag (parts s2 ! i) = FLOWER then {}
            else {pos (fst (snd (update e (parts s2 ! i) s2)))})
    \<and> treePositions (draw_step_p0 e i q2)
         = treePositions q2
           @ (if tag (parts q2 ! i) \<noteq> FLOWER \<and> frameCount e mod 4 = 0
              then [pos (fst (snd (update_p0 e (parts q2 ! i) q2)))] else [])
    \<and> occupied_step_p0 e i q2
         = (if tag (parts q2 ! i) = FLOWER then {}
            else {pos (fst (snd (update_p0 e (parts q2 ! i) q2)))})
    \<and> (\<forall>f \<in> set (drop (length (parts s2)) (parts (handleHandInteraction e (h # hs) s2))).
          tag f = FLOWER \<and> pos f \<in> set (treePositions s2)
          \<and> (\<exists>prev s. prevIndexPos s2 = Some prev \<and> s \<le> nat \<lceil>velocity_of e h s2 / 10\<rceil>
                \<and> near (probe prev x y (nat \<lceil>velocity_of e h s2 / 10\<rceil>) s) (pos f) 30))
    \<and> (\<forall>f \<in> set (drop (length (parts q2)) (parts (handleHandInteraction_p0 e (h # hs) q2))).
          tag f = FLOWER \<and> pos f \<in> set (treePositions q2)
          \<and> p_dist x y (fst (pos f)) (snd (pos f)) < (if velocity_p0 e h q2 > 8 then 80 else 40))"
proof -
  have a: "\<forall>f \<in> set (parts st). tag f = FLOWER \<longrightarrow> pos f \<in> {}"
    and b: "\<forall>f \<in> set (parts sq). tag f = FLOWER \<longrightarrow> pos f \<in> {}"
    and ta: "set (treePositions st) \<subseteq> {}" and tb: "set (treePositions sq) \<subseteq> {}"
    using assms(1-4) by simp_all
  have r1: "\<forall>f \<in> set (parts (frames fs st)). tag f = FLOWER
      \<longrightarrow> pos f \<in> occupied fs st \<and> pos f \<in> recorded fs st"
    using frames_occupied [OF a ta, of fs] frames_flowers [OF a, of fs] by simp
  have r2: "\<forall>f \<in> set (parts (frames_p0 fs sq)). tag f = FLOWER
      \<longrightarrow> pos f \<in> occupied_p0 fs sq \<and> pos f \<in> recorded_p0 fs sq"
    using frames_p0_occupied [OF b tb, of fs] frames_p0_flowers [OF b, of fs] by simp
  have i1: "\<forall>f \<in> set (parts (frames fs st)). tag f = FLOWER \<longrightarrow> pos f \<in> {} \<union> occupied fs st"
    "set (treePositions (frames fs st)) \<subseteq> {} \<union> occupied fs st"
    using frames_occupied [OF a ta, of fs] by simp_all
  have p1: "\<forall>f \<in> set (parts (processHandTracking e inp (frames fs st))). tag f = FLOWER
      \<longrightarrow> pos f \<in> occupied fs st"
    using processHandTracking_occupied [OF i1, of e inp] by simp
  have i2: "\<forall>f \<in> set (parts (frames_p0 fs sq)). tag f = FLOWER
      \<longrightarrow> pos f \<in> {} \<union> occupied_p0 fs sq"
    "set (treePositions (frames_p0 fs sq)) \<subseteq> {} \<union> occupied_p0 fs sq"
    using frames_p0_occupied [OF b tb, of fs] by simp_all
  have p2: "\<forall>f \<in> set (parts (processHandTracking_p0 e inp (frames_p0 fs sq))). tag f = FLOWER
      \<longrightarrow> pos f \<in> occupied_p0 fs sq"
    using processHandTracking_p0_occupied [OF i2, of e inp] by simp
  have r3: "treePositions (fst (draw_step e i (s2, bg, fg)))
         = treePositions s2
           @ (if tag (parts s2 ! i) \<noteq> FLOWER \<and> \<not> fst (update e (parts s2 ! i) s2)
                 \<and> frameCount e mod 5 = 0
                 \<and> snd (pos (fst (snd (update e (parts s2 ! i) s2)))) < height e * 0.7
              then [pos (fst (snd (update e (parts s2 ! i) s2)))] else [])"
    unfolding draw_step_records by (rule update_records)
  have r4: "treePositions (draw_step_p0 e i q2)
         = treePositions q2
           @ (if tag (parts q2 ! i) \<noteq> FLOWER \<and> frameCount e mod 4 = 0
              then [pos (fst (snd (update_p0 e (parts q2 ! i) q2)))] else [])"
    unfolding draw_step_p0_records by (rule update_p0_records)
  show ?thesis
    using r1 p1 r2 p2 r3 occupied_step_eq(1) [of e i s2] r4 occupied_step_eq(2) [of e i q2]
      handle_spawned [where st = s2 and hs = hs and v = "velocity_of e h s2", OF assms(5,6) refl]
      handle_p0_spawned [where st = q2 and hs = hs and v = "velocity_p0 e h q2",
        OF assms(5,6) refl]
    by (intro conjI) assumption+
qed

theorem flowers_bloom_on_tree_witness:
  "map tag (parts sketch_sprout) = [TRUNK] \<and> treePositions sketch_sprout = []
   \<and> map tag (parts (frames run_bloom sketch_sprout)) = [TRUNK, FLOWER]
   \<and> map pos (parts (frames run_bloom sketch_sprout)) = [(404, 300), (402, 300)]
   \<and> occupied run_bloom sketch_sprout = {(402, 300), (404, 300)}
   \<and> pos (parts (frames run_bloom sketch_sprout) ! 1) \<in> occupied run_bloom sketch_sprout
   \<and> occupied [(env_first, frame_flat)] sketch_sprout = {(402, 300)}
   \<and> map tag (parts (processHandTracking env_second frame_reach
                      (frames [(env_first, frame_flat)] sketch_sprout))) = [TRUNK, FLOWER]
   \<and> pos (parts (processHandTracking env_second frame_reach
                   (frames [(env_first, frame_flat)] sketch_sprout)) ! 1)
       \<in> occupied [(env_first, frame_flat)] sketch_sprout
   \<and> map tag (parts sketch_sprout_p0) = [TRUNK] \<and> treePositions sketch_sprout_p0 = []
   \<and> map tag (parts (frames_p0 run_bloom sketch_sprout_p0)) = [TRUNK, FLOWER]
   \<and> map pos (parts (frames_p0 run_bloom sketch_sprout_p0)) = [(404, 300), (402, 300)]
   \<and> occupied_p0 run_bloom sketch_sprout_p0 = {(402, 300), (404, 300)}
   \<and> pos (parts (frames_p0 run_bloom sketch_sprout_p0) ! 1)
       \<in> occupied_p0 run_bloom sketch_sprout_p0
   \<and> occupied_p0 [(env_first, frame_flat)] sketch_sprout_p0 = {(402, 300)}
   \<and> map tag (parts (processHandTracking_p0 env_second frame_reach
                      (frames_p0 [(env_first, frame_flat)] sketch_sprout_p0))) = [TRUNK, FLOWER]
   \<and> pos (parts (processHandTracking_p0 env_second frame_reach
                   (frames_p0 [(env_first, frame_flat)] sketch_sprout_p0)) ! 1)
       \<in> occupied_p0 [(env_first, frame_flat)] sketch_sprout_p0"
proof -
  have h: "\<forall>f \<in> set (parts sketch_sprout). tag f \<noteq> FLOWER" "treePositions sketch_sprout = []"
    "\<forall>f \<in> set (parts sketch_sprout_p0). tag f \<noteq> FLOWER" "treePositions sketch_sprout_p0 = []"
    by (simp_all add: sketch_sprout_def sketch_sprout_p0_def sketch0_def sketch0_p0_def
        sprout_fields)
  have s: "map tag (parts sketch_sprout) = [TRUNK]" "map tag (parts sketch_sprout_p0) = [TRUNK]"
    by (simp_all add: sketch_sprout_def sketch_sprout_p0_def sprout_fields)
  note t = flowers_bloom_on_tree [OF h refl refl, where fs = run_bloom]
  let ?ps = "parts (frames run_bloom sketch_sprout)"
  let ?qs = "parts (frames_p0 run_bloom sketch_sprout_p0)"
  have f: "map tag ?ps = [TRUNK, FLOWER]" "map pos ?ps = [(404, 300), (402, 300)]"
    using second_frame by (simp_all add: run_bloom_def)
  have g: "map tag ?qs = [TRUNK, FLOWER]" "map pos ?qs = [(404, 300), (402, 300)]"
    using second_frame_p0 by (simp_all add: run_bloom_def)
  have lf: "length ?ps = 2" using f(1) by (metis length_map length_Cons list.size(3) numeral_2_eq_2)
  have lg: "length ?qs = 2" using g(1) by (metis length_map length_Cons list.size(3) numeral_2_eq_2)
  have "tag (?ps ! 1) = FLOWER"
    using f(1) lf by (metis nth_map nth_Cons_0 nth_Cons_Suc One_nat_def one_less_numeral_iff
        semiring_norm(76))
  moreover have "?ps ! 1 \<in> set ?ps" using lf by simp
  ultimately have mf: "pos (?ps ! 1) \<in> occupied run_bloom sketch_sprout" using t by blast
  have "tag (?qs ! 1) = FLOWER"
    using g(1) lg by (metis nth_map nth_Cons_0 nth_Cons_Suc One_nat_def one_less_numeral_iff
        semiring_norm(76))
  moreover have "?qs ! 1 \<in> set ?qs" using lg by simp
  ultimately have mg: "pos (?qs ! 1) \<in> occupied_p0 run_bloom sketch_sprout_p0" using t by blast
  note u = flowers_bloom_on_tree [OF h refl refl, where fs = "[(env_first, frame_flat)]"
      and e = env_second and inp = frame_reach]
  let ?pt = "parts (processHandTracking env_second frame_reach
                      (frames [(env_first, frame_flat)] sketch_sprout))"
  let ?qt = "parts (processHandTracking_p0 env_second frame_reach
                      (frames_p0 [(env_first, frame_flat)] sketch_sprout_p0))"
  have ft: "map tag ?pt = [TRUNK, FLOWER]"
    using second_tracking by (simp add: sketch0_def sprout_fields new_Particle_fields)
  have gt: "map tag ?qt = [TRUNK, FLOWER]"
    using second_tracking_p0 by (simp add: sketch0_p0_def sprout_fields new_Particle_p0_fields)
  have lft: "length ?pt = 2"
    using ft by (metis length_map length_Cons list.size(3) numeral_2_eq_2)
  have lgt: "length ?qt = 2"
    using gt by (metis length_map length_Cons list.size(3) numeral_2_eq_2)
  have "tag (?pt ! 1) = FLOWER"
    using ft lft by (metis nth_map nth_Cons_0 nth_Cons_Suc One_nat_def one_less_numeral_iff
        semiring_norm(76))
  moreover have "?pt ! 1 \<in> set ?pt" using lft by simp
  ultimately have mft: "pos (?pt ! 1) \<in> occupied [(env_first, frame_flat)] sketch_sprout"
    using u by blast
  have "tag (?qt ! 1) = FLOWER"
    using gt lgt by (metis nth_map nth_Cons_0 nth_Cons_Suc One_nat_def one_less_numeral_iff
        semiring_norm(76))
  moreover have "?qt ! 1 \<in> set ?qt" using lgt by simp
  ultimately have mgt: "pos (?qt ! 1) \<in> occupied_p0 [(env_first, frame_flat)] sketch_sprout_p0"
    using u by blast
  show ?thesis
    using h(2,4) s f g mf mg run_occupied run_occupied_p0 first_occupied ft gt mft mgt by simp
qed

section \<open>Faster gestures attempt more flowers\<close>

lemma filter_length_mono:
  "(\<And>x. P x \<Longrightarrow> Q x) \<Longrightarrow> length (filter P xs) \<le> length (filter Q xs)"
  by (induction xs) auto

lemma p_dist_nonneg: "0 \<le> p_dist x1 y1 x2 y2"
  by (simp add: p_dist_def)

lemma velocity_of_nonneg: "0 \<le> velocity_of e h st"
  by (simp add: velocity_of_def Let_def p_dist_nonneg split: option.splits)

lemma length_probe_steps: "length (probe_steps v) = nat \<lceil>v / 10\<rceil> + 1"
  by (simp add: probe_steps_def)

lemma length_probe_steps_mono: "v \<le> w \<Longrightarrow> length (probe_steps v) \<le> length (probe_steps w)"
proof -
  assume "v \<le> w"
  then have "\<lceil>v / 10\<rceil> \<le> \<lceil>w / 10\<rceil>" by (intro ceiling_mono) simp
  then have "nat \<lceil>v / 10\<rceil> \<le> nat \<lceil>w / 10\<rceil>" by (rule nat_mono)
  then show ?thesis by (simp only: probe_steps_def length_upt diff_zero Suc_le_mono)
qed

lemma bloomsNeeded_p0_values:
  "v \<le> 8 \<Longrightarrow> fst (bloomsNeeded_p0 e v st) = (if rnd e (seed st) < 0.2 then 1 else 0)"
  "8 < v \<Longrightarrow> fst (bloomsNeeded_p0 e v st) = 5"
  by (simp_all add: bloomsNeeded_p0_def Let_def split_beta p_random_def)

lemma handle_p0_flowers:
  "\<exists>fl. parts (handleHandInteraction_p0 e (h # hs) st) = parts st @ fl
      \<and> (\<forall>f \<in> set fl. tag f = FLOWER)
      \<and> length fl = min (nat (fst (bloomsNeeded_p0 e (velocity_p0 e h st) st)))
          (length (filter (\<lambda>pt. p_dist ((1 - fst (h 8)) * width e) (snd (h 8) * height e)
                                   (fst pt) (snd pt)
                                 < (if velocity_p0 e h st > 8 then 80 else 40))
                     (treePositions st)))"
proof -
  obtain fl tps sd where a:
    "handleHandInteraction_p0 e (h # hs) st
       = st\<lparr>parts := parts st @ fl, treePositions := tps, seed := sd,
              prevHandPos := Some ((1 - fst (h 8)) * width e, snd (h 8) * height e)\<rparr>"
    "\<forall>f \<in> set fl. tag f = FLOWER
        \<and> p_dist ((1 - fst (h 8)) * width e) (snd (h 8) * height e) (fst (pos f)) (snd (pos f))
            < (if velocity_p0 e h st > 8 then 80 else 40)"
    "length fl = min (nat (fst (bloomsNeeded_p0 e (velocity_p0 e h st) st)))
       (length (filter (\<lambda>pt. p_dist ((1 - fst (h 8)) * width e) (snd (h 8) * height e)
                                (fst pt) (snd pt)
                              < (if velocity_p0 e h st > 8 then 80 else 40))
                  (treePositions st)))"
    using handle_p0_effect [OF refl refl refl refl, of e h hs st] by blast
  have "parts (handleHandInteraction_p0 e (h # hs) st) = parts st @ fl" by (subst a(1)) simp
  then show ?thesis using a(2,3) by blast
qed

lemma handle_count:
  "length (parts (handleHandInteraction e (g # gs) st))
     \<le> length (parts st) + length (probe_steps (velocity_of e g st))"
proof -
  obtain ps fl tps sd k w where a:
    "handleHandInteraction e (g # gs) st
       = st\<lparr>parts := ps @ fl, treePositions := tps, seed := sd, fingerStillFrames := k,
              wandPos := w, prevIndexPos := Some ((1 - fst (g 8)) * width e, snd (g 8) * height e)\<rparr>"
    "map pos ps = map pos (parts st)"
    "length fl \<le> length (probe_steps (velocity_of e g st))"
    using handle_effect [OF refl refl refl, of e g gs st] by blast
  have l: "length ps = length (parts st)" using a(2) by (rule map_eq_imp_length_eq)
  show ?thesis unfolding a(1) using a(3) l by simp
qed

text \<open>
  One probe of the painting loop: it blooms the last entry of \<^verbatim>\<open>treePositions\<close> that is
  less than 30 pixels from the probe, and does nothing when there is none.
\<close>

lemma paint_search_exact:
  "i \<le> length (treePositions st) \<Longrightarrow>
   (\<not> (\<exists>k<i. near pr (treePositions st ! k) 30) \<and> paint_search e h pr i st = st)
   \<or> (\<exists>k<i. near pr (treePositions st ! k) 30
         \<and> (\<forall>j. k < j \<and> j < i \<longrightarrow> \<not> near pr (treePositions st ! j) 30)
         \<and> (\<exists>f sd. paint_search e h pr i st
                = st\<lparr>parts := parts st @ [f], treePositions := splice (treePositions st) k,
                      seed := sd\<rparr>
              \<and> tag f = FLOWER \<and> pos f = treePositions st ! k))"
proof (induction i)
  case 0
  show ?case by simp
next
  case (Suc i)
  let ?pt = "treePositions st ! i"
  show ?case
  proof (cases "near pr ?pt 30")
    case True
    obtain f sd where f:
      "spawnFlower e (fst ?pt) (snd ?pt) h st = st\<lparr>parts := parts st @ [f], seed := sd\<rparr>"
      "tag f = FLOWER" "pos f = ?pt"
      using spawnFlower_effect [of e "fst ?pt" "snd ?pt" h st] by auto
    have r: "paint_search e h pr (Suc i) st
        = st\<lparr>parts := parts st @ [f], treePositions := splice (treePositions st) i, seed := sd\<rparr>"
      using True f(1) by (simp add: Let_def)
    have "\<forall>j. i < j \<and> j < Suc i \<longrightarrow> \<not> near pr (treePositions st ! j) 30" by auto
    then show ?thesis using True r f(2,3) by (intro disjI2 exI [of _ i]) blast
  next
    case False
    have eq: "paint_search e h pr (Suc i) st = paint_search e h pr i st"
      using False by (simp add: Let_def)
    have le: "i \<le> length (treePositions st)" using Suc.prems by simp
    from Suc.IH [OF le] show ?thesis
    proof (elim disjE conjE exE)
      assume a: "\<not> (\<exists>k<i. near pr (treePositions st ! k) 30)" "paint_search e h pr i st = st"
      have "\<not> (\<exists>k<Suc i. near pr (treePositions st ! k) 30)"
        using a(1) False by (auto simp: less_Suc_eq)
      then show ?thesis using a(2) eq by simp
    next
      fix k f sd
      assume b: "k < i" "near pr (treePositions st ! k) 30"
        "\<forall>j. k < j \<and> j < i \<longrightarrow> \<not> near pr (treePositions st ! j) 30"
        "paint_search e h pr i st
           = st\<lparr>parts := parts st @ [f], treePositions := splice (treePositions st) k,
                 seed := sd\<rparr>"
        "tag f = FLOWER" "pos f = treePositions st ! k"
      have "\<forall>j. k < j \<and> j < Suc i \<longrightarrow> \<not> near pr (treePositions st ! j) 30"
        using b(3) False by (auto simp: less_Suc_eq)
      moreover have "k < Suc i" using b(1) by simp
      ultimately show ?thesis using b(2,4,5,6) eq by (intro disjI2 exI [of _ k]) auto
    qed
  qed
qed

lemma paint_probe_exact:
  "(\<not> (\<exists>pt \<in> set (treePositions st). near (probe prev x y steps s) pt 30)
      \<and> paint_probe e h prev x y steps st s = st)
   \<or> (\<exists>k<length (treePositions st). near (probe prev x y steps s) (treePositions st ! k) 30
         \<and> (\<forall>j. k < j \<and> j < length (treePositions st)
                \<longrightarrow> \<not> near (probe prev x y steps s) (treePositions st ! j) 30)
         \<and> (\<exists>f sd. paint_probe e h prev x y steps st s
                = st\<lparr>parts := parts st @ [f], treePositions := splice (treePositions st) k,
                      seed := sd\<rparr>
              \<and> tag f = FLOWER \<and> pos f = treePositions st ! k))"
proof -
  let ?pr = "probe prev x y steps s"
  have iff: "(\<exists>pt \<in> set (treePositions st). near ?pr pt 30)
      \<longleftrightarrow> (\<exists>k<length (treePositions st). near ?pr (treePositions st ! k) 30)"
    by (metis in_set_conv_nth)
  show ?thesis
    using paint_search_exact [of "length (treePositions st)" st ?pr e h]
    unfolding paint_probe_def iff by simp
qed

text \<open>In the painting branch the call folds \<^verbatim>\<open>paint_probe\<close> over the probes.\<close>

lemma handle_paints:
  assumes "\<not> (isPointing g \<and> 10 < (if velocity_of e g st < 3 then fingerStillFrames st + 1 else 0))"
    and "prevIndexPos st = Some prev" and "treePositions st \<noteq> []"
    and "x = (1 - fst (g 8)) * width e" and "y = snd (g 8) * height e"
  shows "handleHandInteraction e (g # gs) st
     = (foldl (paint_probe e (handScreenSizeRatio_of e g) prev x y
                 (nat \<lceil>velocity_of e g st / 10\<rceil>))
          (st\<lparr>wandPos := (case wandPos st of None \<Rightarrow> Some (x, y)
                                  | Some w \<Rightarrow> Some (vector_lerp w (x, y) 0.2)),
              fingerStillFrames :=
                (if velocity_of e g st < 3 then fingerStillFrames st + 1 else 0)\<rparr>)
          (probe_steps (velocity_of e g st)))
       \<lparr>prevIndexPos := Some (x, y)\<rparr>"
proof -
  let ?k = "if velocity_of e g st < 3 then fingerStillFrames st + 1 else 0"
  let ?st2 = "st\<lparr>wandPos := (case wandPos st of None \<Rightarrow> Some (x, y)
                                 | Some w \<Rightarrow> Some (vector_lerp w (x, y) 0.2)),
                 fingerStillFrames := ?k\<rparr>"
  have eq: "handleHandInteraction e (g # gs) st
      = (if isPointing g \<and> 10 < ?k then magnify e x y (g 0) ?st2
         else paint e (handScreenSizeRatio_of e g) (velocity_of e g st) x y ?st2)
        \<lparr>prevIndexPos := Some (x, y)\<rparr>"
    unfolding assms(4,5) handle_gate by (simp add: Let_def)
  have p: "paint e (handScreenSizeRatio_of e g) (velocity_of e g st) x y ?st2
      = foldl (paint_probe e (handScreenSizeRatio_of e g) prev x y
                 (nat \<lceil>velocity_of e g st / 10\<rceil>)) ?st2 (probe_steps (velocity_of e g st))"
    using assms(2,3) by (simp add: paint_def)
  show ?thesis unfolding eq if_not_P [OF assms(1)] p ..
qed

lemma faster_paints:
  assumes "st_hi = st_lo\<lparr>prevIndexPos := pw\<rparr>"
    and "velocity_of e g st_lo < velocity_of e g st_hi"
  shows "prevIndexPos st_hi \<noteq> None"
    and "isPointing g \<and> 10 < (if velocity_of e g st_hi < 3 then fingerStillFrames st_hi + 1 else 0)
         \<Longrightarrow> isPointing g
             \<and> 10 < (if velocity_of e g st_lo < 3 then fingerStillFrames st_lo + 1 else 0)"
proof -
  have "0 < velocity_of e g st_hi" using assms(2) velocity_of_nonneg [of e g st_lo] by simp
  then show "prevIndexPos st_hi \<noteq> None"
    by (cases "prevIndexPos st_hi") (simp_all add: velocity_of_def Let_def)
  have same: "fingerStillFrames st_hi = fingerStillFrames st_lo" using assms(1) by simp
  show "isPointing g \<and> 10 < (if velocity_of e g st_lo < 3 then fingerStillFrames st_lo + 1 else 0)"
    if "isPointing g \<and> 10 < (if velocity_of e g st_hi < 3 then fingerStillFrames st_hi + 1 else 0)"
    using that assms(2) same by (auto split: if_splits)
qed

text \<open>
  Claim C3. Take two calls of \<^verbatim>\<open>handleHandInteraction\<close> that differ only in the previous tip
  position, hence in the velocity.

  In \<^verbatim>\<open>part_000\<close>, with one velocity above 8 and the other not: the faster call asks for 5
  blooms and the slower for 1 or 0, as its random draw decides. Each call appends to
  \<^verbatim>\<open>parts\<close> only flowers, exactly as many as it asked for or as there are recorded
  positions within its search radius (80 for the faster call, 40 for the slower),
  whichever is less; so the faster call spawns at least as many flowers as the slower one.

  In \<^verbatim>\<open>GenerativeTree.tsx\<close> the attempts of a call are the probes of its interpolation
  loop. A call that paints (not the still pointing gesture, with a previous tip position
  and at least one recorded position) runs the body of that loop, \<open>paint_probe\<close>, once
  for each of the \<open>ceil(velocity / 10) + 1\<close> values of \<open>s\<close>, in order; the faster call makes at least as
  many probes as the slower one, and it paints whenever the slower one does. Each probe
  blooms exactly one flower, at the last recorded position less than 30 pixels from it,
  and removes that position; a probe with no such position changes nothing. No call adds
  more particles than it makes probes.
\<close>

theorem faster_gesture_attempts_more:
  assumes "sq_hi = sq_lo\<lparr>prevHandPos := pv\<rparr>"
    and "velocity_p0 e h sq_lo \<le> 8" and "8 < velocity_p0 e h sq_hi"
    and "st_hi = st_lo\<lparr>prevIndexPos := pw\<rparr>"
    and "velocity_of e g st_lo < velocity_of e g st_hi"
    and "hx = (1 - fst (h 8)) * width e" and "hy = snd (h 8) * height e"
    and "x = (1 - fst (g 8)) * width e" and "y = snd (g 8) * height e"
  shows "fst (bloomsNeeded_p0 e (velocity_p0 e h sq_lo) sq_lo)
           = (if rnd e (seed sq_lo) < 0.2 then 1 else 0)
    \<and> fst (bloomsNeeded_p0 e (velocity_p0 e h sq_hi) sq_hi) = 5
    \<and> (\<exists>fl_lo fl_hi.
          parts (handleHandInteraction_p0 e (h # hs) sq_lo) = parts sq_lo @ fl_lo
          \<and> parts (handleHandInteraction_p0 e (h # hs) sq_hi) = parts sq_lo @ fl_hi
          \<and> (\<forall>f \<in> set fl_lo \<union> set fl_hi. tag f = FLOWER)
          \<and> length fl_lo
              = min (if rnd e (seed sq_lo) < 0.2 then 1 else 0)
                  (length (filter (\<lambda>pt. p_dist hx hy (fst pt) (snd pt) < 40) (treePositions sq_lo)))
          \<and> length fl_hi
              = min 5
                  (length (filter (\<lambda>pt. p_dist hx hy (fst pt) (snd pt) < 80) (treePositions sq_lo)))
          \<and> length fl_lo \<le> length fl_hi)
    \<and> length (probe_steps (velocity_of e g st_lo)) = nat \<lceil>velocity_of e g st_lo / 10\<rceil> + 1
    \<and> length (probe_steps (velocity_of e g st_hi)) = nat \<lceil>velocity_of e g st_hi / 10\<rceil> + 1
    \<and> length (probe_steps (velocity_of e g st_lo)) \<le> length (probe_steps (velocity_of e g st_hi))
    \<and> (\<not> (isPointing g
             \<and> 10 < (if velocity_of e g st_lo < 3 then fingerStillFrames st_lo + 1 else 0))
          \<and> prevIndexPos st_lo \<noteq> None \<and> treePositions st_lo \<noteq> []
        \<longrightarrow> \<not> (isPointing g
                 \<and> 10 < (if velocity_of e g st_hi < 3 then fingerStillFrames st_hi + 1 else 0))
            \<and> prevIndexPos st_hi \<noteq> None \<and> treePositions st_hi \<noteq> [])
    \<and> (\<not> (isPointing g \<and> 10 < (if velocity_of e g st < 3 then fingerStillFrames st + 1 else 0))
          \<and> prevIndexPos st = Some prev \<and> treePositions st \<noteq> []
        \<longrightarrow> handleHandInteraction e (g # gs) st
              = (foldl (paint_probe e (handScreenSizeRatio_of e g) prev x y
                          (nat \<lceil>velocity_of e g st / 10\<rceil>))
                   (st\<lparr>wandPos := (case wandPos st of None \<Rightarrow> Some (x, y)
                                           | Some w \<Rightarrow> Some (vector_lerp w (x, y) 0.2)),
                       fingerStillFrames :=
                         (if velocity_of e g st < 3 then fingerStillFrames st + 1 else 0)\<rparr>)
                   (probe_steps (velocity_of e g st)))
                \<lparr>prevIndexPos := Some (x, y)\<rparr>)
    \<and> ((\<not> (\<exists>pt \<in> set (treePositions s2). near (probe pr x y steps s) pt 30)
           \<and> paint_probe e r pr x y steps s2 s = s2)
        \<or> (\<exists>k<length (treePositions s2). near (probe pr x y steps s) (treePositions s2 ! k) 30
              \<and> (\<forall>j. k < j \<and> j < length (treePositions s2)
                     \<longrightarrow> \<not> near (probe pr x y steps s) (treePositions s2 ! j) 30)
              \<and> (\<exists>f sd. paint_probe e r pr x y steps s2 s
                     = s2\<lparr>parts := parts s2 @ [f],
                          treePositions := splice (treePositions s2) k, seed := sd\<rparr>
                   \<and> tag f = FLOWER \<and> pos f = treePositions s2 ! k)))
    \<and> length (parts (handleHandInteraction e (g # gs) st))
        \<le> length (parts st) + length (probe_steps (velocity_of e g st))"
proof -
  let ?P = "\<lambda>r pt. p_dist hx hy (fst pt) (snd pt) < (r::real)"
  have b: "fst (bloomsNeeded_p0 e (velocity_p0 e h sq_lo) sq_lo)
             = (if rnd e (seed sq_lo) < 0.2 then 1 else 0)"
    "fst (bloomsNeeded_p0 e (velocity_p0 e h sq_hi) sq_hi) = 5"
    using bloomsNeeded_p0_values assms(2,3) by simp_all
  have same: "parts sq_hi = parts sq_lo" "treePositions sq_hi = treePositions sq_lo"
    using assms(1) by simp_all
  have f: "length (filter (?P 40) (treePositions sq_lo)) \<le> length (filter (?P 80) (treePositions sq_lo))"
    by (rule filter_length_mono) simp
  obtain fl_lo where lo: "parts (handleHandInteraction_p0 e (h # hs) sq_lo) = parts sq_lo @ fl_lo"
    "\<forall>f \<in> set fl_lo. tag f = FLOWER"
    "length fl_lo = min (if rnd e (seed sq_lo) < 0.2 then 1 else 0)
       (length (filter (?P 40) (treePositions sq_lo)))"
    using handle_p0_flowers [of e h hs sq_lo] assms(2) b(1) unfolding assms(6,7) by auto
  obtain fl_hi where hi: "parts (handleHandInteraction_p0 e (h # hs) sq_hi) = parts sq_lo @ fl_hi"
    "\<forall>f \<in> set fl_hi. tag f = FLOWER"
    "length fl_hi = min 5 (length (filter (?P 80) (treePositions sq_lo)))"
    using handle_p0_flowers [of e h hs sq_hi] assms(3) b(2) same unfolding assms(6,7) by auto
  have le: "length fl_lo \<le> length fl_hi" unfolding lo(3) hi(3) using f by auto
  have c: "\<exists>fl_lo fl_hi.
          parts (handleHandInteraction_p0 e (h # hs) sq_lo) = parts sq_lo @ fl_lo
          \<and> parts (handleHandInteraction_p0 e (h # hs) sq_hi) = parts sq_lo @ fl_hi
          \<and> (\<forall>f \<in> set fl_lo \<union> set fl_hi. tag f = FLOWER)
          \<and> length fl_lo
              = min (if rnd e (seed sq_lo) < 0.2 then 1 else 0)
                  (length (filter (?P 40) (treePositions sq_lo)))
          \<and> length fl_hi = min 5 (length (filter (?P 80) (treePositions sq_lo)))
          \<and> length fl_lo \<le> length fl_hi"
    using lo hi le by (intro exI [of _ fl_lo] exI [of _ fl_hi]) auto
  have m: "length (probe_steps (velocity_of e g st_lo))
      \<le> length (probe_steps (velocity_of e g st_hi))"
    using length_probe_steps_mono assms(5) by simp
  have t: "treePositions st_hi = treePositions st_lo" using assms(4) by simp
  have g: "\<not> (isPointing g
             \<and> 10 < (if velocity_of e g st_lo < 3 then fingerStillFrames st_lo + 1 else 0))
          \<and> prevIndexPos st_lo \<noteq> None \<and> treePositions st_lo \<noteq> []
        \<longrightarrow> \<not> (isPointing g
                 \<and> 10 < (if velocity_of e g st_hi < 3 then fingerStillFrames st_hi + 1 else 0))
            \<and> prevIndexPos st_hi \<noteq> None \<and> treePositions st_hi \<noteq> []"
    using faster_paints [OF assms(4,5)] t by metis
  have p: "\<not> (isPointing g \<and> 10 < (if velocity_of e g st < 3 then fingerStillFrames st + 1 else 0))
          \<and> prevIndexPos st = Some prev \<and> treePositions st \<noteq> []
        \<longrightarrow> handleHandInteraction e (g # gs) st
              = (foldl (paint_probe e (handScreenSizeRatio_of e g) prev x y
                          (nat \<lceil>velocity_of e g st / 10\<rceil>))
                   (st\<lparr>wandPos := (case wandPos st of None \<Rightarrow> Some (x, y)
                                           | Some w \<Rightarrow> Some (vector_lerp w (x, y) 0.2)),
                       fingerStillFrames :=
                         (if velocity_of e g st < 3 then fingerStillFrames st + 1 else 0)\<rparr>)
                   (probe_steps (velocity_of e g st)))
                \<lparr>prevIndexPos := Some (x, y)\<rparr>"
    using handle_paints [where e = e and g = g and gs = gs and st = st and prev = prev
        and x = x and y = y] assms(8,9) by blast
  show ?thesis
    using b c length_probe_steps [of "velocity_of e g st_lo"]
      length_probe_steps [of "velocity_of e g st_hi"] m g p
      paint_probe_exact [of s2 pr x y steps s e r] handle_count [of e g gs st]
    by (intro conjI) assumption+
qed

theorem faster_gesture_attempts_more_witness:
  "velocity_p0 env0 hand_flat sketch_slow_p0 = 5
   \<and> velocity_p0 env0 hand_flat sketch_bare_p0 = 10
   \<and> parts (handleHandInteraction_p0 env0 [hand_flat] sketch_slow_p0) = []
   \<and> map tag (parts (handleHandInteraction_p0 env0 [hand_flat] sketch_bare_p0)) = [FLOWER]
   \<and> velocity_of env0 hand_flat sketch_slow = 5
   \<and> velocity_of env0 hand_flat sketch_fast = 20
   \<and> length (probe_steps (velocity_of env0 hand_flat sketch_slow)) = 2
   \<and> length (probe_steps (velocity_of env0 hand_flat sketch_fast)) = 3
   \<and> handleHandInteraction env0 [hand_flat] sketch_fast
       = (foldl (paint_probe env0 (handScreenSizeRatio_of env0 hand_flat) (420, 300) 400 300 2)
            (sketch_fast\<lparr>wandPos := Some (392, 300), fingerStillFrames := 0\<rparr>)
            (probe_steps 20))
         \<lparr>prevIndexPos := Some (400, 300)\<rparr>
   \<and> paint_probe env0 0 (420, 300) 400 300 2 sketch_fast 0 = sketch_fast
   \<and> map tag (parts (paint_probe env0 0 (420, 300) 400 300 2 sketch_fast 1)) = [FLOWER]
   \<and> treePositions (paint_probe env0 0 (420, 300) 400 300 2 sketch_fast 1) = []"
proof -
  have v: "velocity_p0 env0 hand_flat sketch_slow_p0 = 5"
    "velocity_p0 env0 hand_flat sketch_bare_p0 = 10"
    "velocity_of env0 hand_flat sketch_slow = 5"
    "velocity_of env0 hand_flat sketch_fast = 20"
    by (simp_all add: velocity_p0_def velocity_of_def Let_def hand_flat_def env0_def
        sketch_slow_p0_def sketch_slow_def sketch_bare_p0_def sketch_bare_def sketch_fast_def
        p_dist_horizontal)
  have h: "sketch_bare_p0 = sketch_slow_p0\<lparr>prevHandPos := Some (390, 300)\<rparr>"
    "velocity_p0 env0 hand_flat sketch_slow_p0 \<le> 8"
    "8 < velocity_p0 env0 hand_flat sketch_bare_p0"
    "sketch_fast = sketch_slow\<lparr>prevIndexPos := Some (420, 300)\<rparr>"
    "velocity_of env0 hand_flat sketch_slow < velocity_of env0 hand_flat sketch_fast"
    using v by (simp_all add: sketch_slow_p0_def sketch_slow_def sketch_bare_p0_def
        sketch_bare_def sketch_fast_def)
  have xy: "(1 - fst (hand_flat 8)) * width env0 = 400" "snd (hand_flat 8) * height env0 = 300"
    by (simp_all add: hand_flat_def env0_def)
  have s: "parts sketch_slow_p0 = []" "treePositions sketch_slow_p0 = [(390, 300)]"
    "parts sketch_fast = []" "treePositions sketch_fast = [(390, 300)]"
    "prevIndexPos sketch_fast = Some (420, 300)" "wandPos sketch_fast = Some (390, 300)"
    "fingerStillFrames sketch_fast = 0" "rnd env0 (seed sketch_slow_p0) = 1 / 2"
    by (simp_all add: sketch_slow_p0_def sketch_bare_p0_def sketch_fast_def sketch_bare_def
        env0_def)
  have ce: "\<lceil>(1::real) / 2\<rceil> = 1" by (rule ceiling_unique) simp_all
  have np: "\<not> isPointing hand_flat"
    by (simp add: isPointing_def hand_flat_def Let_def p_dist_vertical)
  have n0: "\<not> near (probe (420, 300) 400 300 2 0) (390, 300) 30"
    and n1: "near (probe (420, 300) 400 300 2 1) (390, 300) 30"
    by (simp_all add: near_def probe_def p_lerp_def p_dist_horizontal)
  note t0 = faster_gesture_attempts_more [OF h refl refl refl refl, where hs = "[]" and gs = "[]"
      and st = sketch_fast and prev = "(420, 300)" and ?s2.0 = sketch_fast and pr = "(420, 300)"
      and steps = 2 and s = 0 and r = 0]
  note t1 = faster_gesture_attempts_more [OF h refl refl refl refl, where hs = "[]" and gs = "[]"
      and st = sketch_fast and prev = "(420, 300)" and ?s2.0 = sketch_fast and pr = "(420, 300)"
      and steps = 2 and s = 1 and r = 0]
  note c2 = conjunct2
  note t0_blooms = t0 [THEN c2, THEN c2, THEN conjunct1]
  note t0_len = t0 [THEN c2, THEN c2, THEN c2, THEN conjunct1]
    t0 [THEN c2, THEN c2, THEN c2, THEN c2, THEN conjunct1]
  note t0_fold = t0 [THEN c2, THEN c2, THEN c2, THEN c2, THEN c2, THEN c2, THEN c2, THEN conjunct1]
  note t0_probe = t0 [THEN c2, THEN c2, THEN c2, THEN c2, THEN c2, THEN c2, THEN c2, THEN c2,
      THEN conjunct1]
  note t1_probe = t1 [THEN c2, THEN c2, THEN c2, THEN c2, THEN c2, THEN c2, THEN c2, THEN c2,
      THEN conjunct1]
  obtain fl_lo fl_hi where c:
    "parts (handleHandInteraction_p0 env0 [hand_flat] sketch_slow_p0) = parts sketch_slow_p0 @ fl_lo"
    "parts (handleHandInteraction_p0 env0 [hand_flat] sketch_bare_p0) = parts sketch_slow_p0 @ fl_hi"
    "\<forall>f \<in> set fl_lo \<union> set fl_hi. tag f = FLOWER"
    "length fl_lo = min (if rnd env0 (seed sketch_slow_p0) < 0.2 then 1 else 0)
       (length (filter (\<lambda>pt. p_dist ((1 - fst (hand_flat 8)) * width env0)
                                (snd (hand_flat 8) * height env0) (fst pt) (snd pt) < 40)
                  (treePositions sketch_slow_p0)))"
    "length fl_hi = min 5
       (length (filter (\<lambda>pt. p_dist ((1 - fst (hand_flat 8)) * width env0)
                                (snd (hand_flat 8) * height env0) (fst pt) (snd pt) < 80)
                  (treePositions sketch_slow_p0)))"
    using t0_blooms by blast
  have "length fl_lo = 0" using c(4) s(8) by simp
  then have w1: "parts (handleHandInteraction_p0 env0 [hand_flat] sketch_slow_p0) = []"
    using c(1) s(1) by simp
  have "length fl_hi = 1" using c(5) s(2) xy by (simp add: p_dist_horizontal)
  then obtain f where "fl_hi = [f]" by (cases fl_hi) auto
  then have w2: "map tag (parts (handleHandInteraction_p0 env0 [hand_flat] sketch_bare_p0)) = [FLOWER]"
    using c(2,3) s(1) by simp
  have w3: "length (probe_steps (velocity_of env0 hand_flat sketch_slow)) = 2"
    "length (probe_steps (velocity_of env0 hand_flat sketch_fast)) = 3"
    using t0_len v ce by simp_all
  have w4: "handleHandInteraction env0 [hand_flat] sketch_fast
       = (foldl (paint_probe env0 (handScreenSizeRatio_of env0 hand_flat) (420, 300) 400 300 2)
            (sketch_fast\<lparr>wandPos := Some (392, 300), fingerStillFrames := 0\<rparr>)
            (probe_steps 20))
         \<lparr>prevIndexPos := Some (400, 300)\<rparr>"
    using t0_fold np s(4,5,6,7) v(4) by (simp add: xy vector_lerp_def)
  have w5: "paint_probe env0 0 (420, 300) 400 300 2 sketch_fast 0 = sketch_fast"
    using t0_probe n0 s(4) by (simp add: xy)
  have "\<exists>f sd. paint_probe env0 0 (420, 300) 400 300 2 sketch_fast 1
      = sketch_fast\<lparr>parts := parts sketch_fast @ [f],
                     treePositions := splice (treePositions sketch_fast) 0, seed := sd\<rparr>
      \<and> tag f = FLOWER"
    using t1_probe n1 s(4) by (auto simp: xy)
  then have w6: "map tag (parts (paint_probe env0 0 (420, 300) 400 300 2 sketch_fast 1)) = [FLOWER]"
    "treePositions (paint_probe env0 0 (420, 300) 400 300 2 sketch_fast 1) = []"
    using s(3,4) by (auto simp: splice_def)
  show ?thesis using v w1 w2 w3 w4 w5 w6 by simp
qed

text \<open>
  What is counted above is attempts, as the claim words it. How many flowers a call of
  \<^verbatim>\<open>GenerativeTree.tsx\<close> blooms depends on where its probes fall: with one recorded
  position 30 pixels left of the tip, a call at velocity 5 blooms it (its first probe is
  25 pixels away), a call at velocity 20 does not (its probes are 50, 40 and 30 pixels
  away).
\<close>

lemma probes_may_miss:
  "velocity_of env0 hand_flat (sketch_slow\<lparr>treePositions := [(370, 300)]\<rparr>) = 5
   \<and> length (parts (handleHandInteraction env0 [hand_flat]
                      (sketch_slow\<lparr>treePositions := [(370, 300)]\<rparr>))) = 1
   \<and> velocity_of env0 hand_flat (sketch_fast\<lparr>treePositions := [(370, 300)]\<rparr>) = 20
   \<and> length (parts (handleHandInteraction env0 [hand_flat]
                      (sketch_fast\<lparr>treePositions := [(370, 300)]\<rparr>))) = 0"
  by (simp add: handleHandInteraction_def Let_def hand_flat_def sketch_slow_def sketch_fast_def
      sketch_bare_def env0_def velocity_of_def isPointing_def p_dist_horizontal paint_def
      probe_steps_def paint_probe_def probe_def near_def p_lerp_def spawnFlower_def
      splice_def split_beta handScreenSizeRatio_of_def upt_rec)

section \<open>What one frame mutates\<close>

lemma handle_interaction:
  "prevIndexPos (handleHandInteraction e (h # hs) st)
     = Some ((1 - fst (h 8)) * width e, snd (h 8) * height e)"
  "wandPos (handleHandInteraction e (h # hs) st)
     = (case wandPos st of
          None \<Rightarrow> Some ((1 - fst (h 8)) * width e, snd (h 8) * height e)
        | Some w \<Rightarrow> Some (vector_lerp w ((1 - fst (h 8)) * width e, snd (h 8) * height e) 0.2))"
  "fingerStillFrames (handleHandInteraction e (h # hs) st)
     = (if velocity_of e h st < 3 then fingerStillFrames st + 1 else 0)"
  "lastVideoTime (handleHandInteraction e (h # hs) st) = lastVideoTime st"
proof -
  let ?x = "(1 - fst (h 8)) * width e" and ?y = "snd (h 8) * height e"
  let ?k = "if velocity_of e h st < 3 then fingerStillFrames st + 1 else 0"
  let ?w = "case wandPos st of None \<Rightarrow> Some (?x, ?y)
            | Some w \<Rightarrow> Some (vector_lerp w (?x, ?y) 0.2)"
  let ?st2 = "st\<lparr>wandPos := ?w, fingerStillFrames := ?k\<rparr>"
  have eq: "handleHandInteraction e (h # hs) st
      = (if isPointing h \<and> 10 < ?k then magnify e ?x ?y (h 0) ?st2
         else paint e (handScreenSizeRatio_of e h) (velocity_of e h st) ?x ?y ?st2)
        \<lparr>prevIndexPos := Some (?x, ?y)\<rparr>"
    unfolding handle_gate by (simp add: Let_def)
  have m: "\<exists>ps. magnify e ?x ?y (h 0) ?st2 = ?st2\<lparr>parts := ps\<rparr>"
    using magnify_frame [of e ?x ?y "h 0" ?st2] by blast
  have p: "\<exists>ps tps sd. paint e (handScreenSizeRatio_of e h) (velocity_of e h st) ?x ?y ?st2
      = ?st2\<lparr>parts := ps, treePositions := tps, seed := sd\<rparr>"
    using paint_effect [of e "handScreenSizeRatio_of e h" "velocity_of e h st" ?x ?y ?st2]
    by blast
  obtain ps tps sd where r: "handleHandInteraction e (h # hs) st
      = ?st2\<lparr>parts := ps, treePositions := tps, seed := sd, prevIndexPos := Some (?x, ?y)\<rparr>"
  proof (cases "isPointing h \<and> 10 < ?k")
    case True
    obtain ps where "magnify e ?x ?y (h 0) ?st2 = ?st2\<lparr>parts := ps\<rparr>" using m by blast
    then have "handleHandInteraction e (h # hs) st
        = ?st2\<lparr>parts := ps, treePositions := treePositions st, seed := seed st,
               prevIndexPos := Some (?x, ?y)\<rparr>"
      unfolding eq if_P [OF True] by simp
    then show ?thesis using that by blast
  next
    case False
    obtain ps tps sd where "paint e (handScreenSizeRatio_of e h) (velocity_of e h st) ?x ?y ?st2
        = ?st2\<lparr>parts := ps, treePositions := tps, seed := sd\<rparr>"
      using p by blast
    then have "handleHandInteraction e (h # hs) st
        = ?st2\<lparr>parts := ps, treePositions := tps, seed := sd, prevIndexPos := Some (?x, ?y)\<rparr>"
      unfolding eq if_not_P [OF False] by simp
    then show ?thesis using that by blast
  qed
  show "prevIndexPos (handleHandInteraction e (h # hs) st) = Some (?x, ?y)"
    "wandPos (handleHandInteraction e (h # hs) st) = ?w"
    "fingerStillFrames (handleHandInteraction e (h # hs) st) = ?k"
    "lastVideoTime (handleHandInteraction e (h # hs) st) = lastVideoTime st"
    unfolding r by simp_all
qed

lemma handle_p0_interaction:
  "prevHandPos (handleHandInteraction_p0 e (h # hs) st)
     = Some ((1 - fst (h 8)) * width e, snd (h 8) * height e)"
  "lastVideoTime (handleHandInteraction_p0 e (h # hs) st) = lastVideoTime st"
proof -
  obtain fl tps sd where a:
    "handleHandInteraction_p0 e (h # hs) st
       = st\<lparr>parts := parts st @ fl, treePositions := tps, seed := sd,
              prevHandPos := Some ((1 - fst (h 8)) * width e, snd (h 8) * height e)\<rparr>"
    using handle_p0_effect [OF refl refl refl refl, of e h hs st] by blast
  show "prevHandPos (handleHandInteraction_p0 e (h # hs) st)
     = Some ((1 - fst (h 8)) * width e, snd (h 8) * height e)"
    "lastVideoTime (handleHandInteraction_p0 e (h # hs) st) = lastVideoTime st"
    unfolding a by simp_all
qed

lemma handle_lastVideoTime:
  "lastVideoTime (handleHandInteraction e result st) = lastVideoTime st"
  by (cases result) (simp_all add: handle_interaction handleHandInteraction_def [of e "[]"])

lemma handle_p0_lastVideoTime:
  "lastVideoTime (handleHandInteraction_p0 e result st) = lastVideoTime st"
  by (cases result) (simp_all add: handle_p0_interaction handleHandInteraction_p0_def [of e "[]"])

lemma processHandTracking_interaction:
  "lastVideoTime (processHandTracking e inp st)
     = (if trackingReady inp \<and> currentTime inp \<noteq> lastVideoTime st
        then currentTime inp else lastVideoTime st)"
  "prevIndexPos (processHandTracking e inp st)
     = (if trackingReady inp \<and> currentTime inp \<noteq> lastVideoTime st
        then (case detectForVideo inp of
                None \<Rightarrow> prevIndexPos st
              | Some [] \<Rightarrow> None
              | Some (h # hs) \<Rightarrow> Some ((1 - fst (h 8)) * width e, snd (h 8) * height e))
        else prevIndexPos st)"
  "wandPos (processHandTracking e inp st)
     = (if trackingReady inp \<and> currentTime inp \<noteq> lastVideoTime st
        then (case detectForVideo inp of
                None \<Rightarrow> wandPos st
              | Some [] \<Rightarrow> None
              | Some (h # hs) \<Rightarrow>
                  (case wandPos st of
                     None \<Rightarrow> Some ((1 - fst (h 8)) * width e, snd (h 8) * height e)
                   | Some w \<Rightarrow>
                       Some (vector_lerp w ((1 - fst (h 8)) * width e, snd (h 8) * height e) 0.2)))
        else wandPos st)"
  "fingerStillFrames (processHandTracking e inp st)
     = (if trackingReady inp \<and> currentTime inp \<noteq> lastVideoTime st
        then (case detectForVideo inp of
                None \<Rightarrow> fingerStillFrames st
              | Some [] \<Rightarrow> 0
              | Some (h # hs) \<Rightarrow> (if velocity_of e h st < 3 then fingerStillFrames st + 1 else 0))
        else fingerStillFrames st)"
  by (auto simp: processHandTracking_def Let_def handle_interaction
      handle_lastVideoTime handleHandInteraction_def [of e "[]"] velocity_of_def
      split: option.splits list.splits)

lemma processHandTracking_p0_interaction:
  "lastVideoTime (processHandTracking_p0 e inp st)
     = (if trackingReady inp \<and> currentTime inp \<noteq> lastVideoTime st
        then currentTime inp else lastVideoTime st)"
  "prevHandPos (processHandTracking_p0 e inp st)
     = (if trackingReady inp \<and> currentTime inp \<noteq> lastVideoTime st
        then (case detectForVideo inp of
                None \<Rightarrow> prevHandPos st
              | Some [] \<Rightarrow> None
              | Some (h # hs) \<Rightarrow> Some ((1 - fst (h 8)) * width e, snd (h 8) * height e))
        else prevHandPos st)"
  by (auto simp: processHandTracking_p0_def Let_def handle_p0_interaction
      handle_p0_lastVideoTime handleHandInteraction_p0_def [of e "[]"]
      split: option.splits list.splits)

lemma draw_keeps_interaction:
  "lastVideoTime (draw e inp st) = lastVideoTime (processHandTracking e inp st)"
  "prevIndexPos (draw e inp st) = prevIndexPos (processHandTracking e inp st)"
  "wandPos (draw e inp st) = wandPos (processHandTracking e inp st)"
  "fingerStillFrames (draw e inp st) = fingerStillFrames (processHandTracking e inp st)"
proof -
  obtain ps new sd ink cv where b:
    "draw e inp st
       = (processHandTracking e inp st)
           \<lparr>parts := ps, treePositions := treePositions (processHandTracking e inp st) @ new,
            seed := sd, treeLayer := treeLayer st @ ink, canvas := cv\<rparr>"
    using draw_effect [of e inp st] by blast
  show "lastVideoTime (draw e inp st) = lastVideoTime (processHandTracking e inp st)"
    "prevIndexPos (draw e inp st) = prevIndexPos (processHandTracking e inp st)"
    "wandPos (draw e inp st) = wandPos (processHandTracking e inp st)"
    "fingerStillFrames (draw e inp st) = fingerStillFrames (processHandTracking e inp st)"
    by (subst b, simp)+
qed

lemma draw_p0_keeps_interaction:
  "lastVideoTime (draw_p0 e inp st) = lastVideoTime (processHandTracking_p0 e inp st)"
  "prevHandPos (draw_p0 e inp st) = prevHandPos (processHandTracking_p0 e inp st)"
proof -
  obtain ps new sd ink where b:
    "draw_p0 e inp st
       = (processHandTracking_p0 e inp st)
           \<lparr>parts := ps, treePositions := treePositions (processHandTracking_p0 e inp st) @ new,
            seed := sd, canvas := canvas st @ ink\<rparr>"
    using draw_p0_effect [of e inp st] by blast
  show "lastVideoTime (draw_p0 e inp st) = lastVideoTime (processHandTracking_p0 e inp st)"
    "prevHandPos (draw_p0 e inp st) = prevHandPos (processHandTracking_p0 e inp st)"
    by (subst b, simp)+
qed

lemmas draw_interaction =
  processHandTracking_interaction [folded draw_keeps_interaction]

lemmas draw_p0_interaction =
  processHandTracking_p0_interaction [folded draw_p0_keeps_interaction]

text \<open>The hand tracking takes out of \<^verbatim>\<open>treePositions\<close> exactly the positions it blooms.\<close>

lemma processHandTracking_blooms:
  "mset (treePositions st)
     = mset (treePositions (processHandTracking e inp st))
       + mset (map pos (drop (length (parts st)) (parts (processHandTracking e inp st))))"
  "length (parts st) \<le> length (parts (processHandTracking e inp st))"
  "filter (\<lambda>f. tag f \<noteq> FLOWER) (drop (length (parts st)) (parts (processHandTracking e inp st)))
     = []"
proof -
  obtain ps fl tps sd k w pv t where a:
    "processHandTracking e inp st
       = st\<lparr>parts := ps @ fl, treePositions := tps, seed := sd, fingerStillFrames := k,
             wandPos := w, prevIndexPos := pv, lastVideoTime := t\<rparr>"
    "map pos ps = map pos (parts st)"
    "\<forall>f \<in> set fl. tag f = FLOWER \<and> pos f \<in> set (treePositions st)"
    "mset (treePositions st) = mset tps + mset (map pos fl)"
    using processHandTracking_effect [of e inp st] by blast
  have l: "length ps = length (parts st)" using a(2) by (rule map_eq_imp_length_eq)
  have p: "parts (processHandTracking e inp st) = ps @ fl"
    and t: "treePositions (processHandTracking e inp st) = tps"
    by (subst a(1), simp)+
  show "mset (treePositions st)
     = mset (treePositions (processHandTracking e inp st))
       + mset (map pos (drop (length (parts st)) (parts (processHandTracking e inp st))))"
    unfolding p t using a(4) l by simp
  show "length (parts st) \<le> length (parts (processHandTracking e inp st))"
    unfolding p using l by simp
  show "filter (\<lambda>f. tag f \<noteq> FLOWER)
      (drop (length (parts st)) (parts (processHandTracking e inp st))) = []"
    unfolding p using a(3) l by (simp add: filter_empty_conv)
qed

lemma processHandTracking_p0_blooms:
  "mset (treePositions st)
     = mset (treePositions (processHandTracking_p0 e inp st))
       + mset (map pos (drop (length (parts st)) (parts (processHandTracking_p0 e inp st))))"
  "take (length (parts st)) (parts (processHandTracking_p0 e inp st)) = parts st"
  "filter (\<lambda>f. tag f \<noteq> FLOWER)
     (drop (length (parts st)) (parts (processHandTracking_p0 e inp st))) = []"
proof -
  obtain fl tps sd pv t where a:
    "processHandTracking_p0 e inp st
       = st\<lparr>parts := parts st @ fl, treePositions := tps, seed := sd, prevHandPos := pv,
             lastVideoTime := t\<rparr>"
    "\<forall>f \<in> set fl. tag f = FLOWER \<and> pos f \<in> set (treePositions st)"
    "mset (treePositions st) = mset tps + mset (map pos fl)"
    using processHandTracking_p0_effect [of e inp st] by blast
  have p: "parts (processHandTracking_p0 e inp st) = parts st @ fl"
    and t: "treePositions (processHandTracking_p0 e inp st) = tps"
    by (subst a(1), simp)+
  show "mset (treePositions st)
     = mset (treePositions (processHandTracking_p0 e inp st))
       + mset (map pos (drop (length (parts st)) (parts (processHandTracking_p0 e inp st))))"
    unfolding p t using a(3) by simp
  show "take (length (parts st)) (parts (processHandTracking_p0 e inp st)) = parts st"
    unfolding p by simp
  show "filter (\<lambda>f. tag f \<noteq> FLOWER)
      (drop (length (parts st)) (parts (processHandTracking_p0 e inp st))) = []"
    unfolding p using a(2) by (simp add: filter_empty_conv)
qed

lemma draw_parts_frame:
  "\<exists>ps new sd ink. fst (draw_parts e (length (parts st)) (st, [], []))
     = st\<lparr>parts := ps, treePositions := treePositions st @ new, seed := sd,
           treeLayer := treeLayer st @ ink\<rparr>"
  using draw_parts_effect [of "length (parts st)" "(st, [], [])" e] by auto

lemma draw_parts_p0_frame:
  "\<exists>ps new sd ink. draw_parts_p0 e (length (parts st)) st
     = st\<lparr>parts := ps, treePositions := treePositions st @ new, seed := sd,
           canvas := canvas st @ ink\<rparr>"
  using draw_parts_p0_effect [of "length (parts st)" st e] by blast

lemma draw_frame:
  "\<exists>ps new sd ink cv. draw e inp st
        = (processHandTracking e inp st)
            \<lparr>parts := ps,
             treePositions := treePositions (processHandTracking e inp st) @ new,
             seed := sd, treeLayer := treeLayer st @ ink, canvas := cv\<rparr>"
  using draw_effect [of e inp st] by blast

lemma draw_p0_frame:
  "\<exists>ps new sd ink. draw_p0 e inp st
        = (processHandTracking_p0 e inp st)
            \<lparr>parts := ps,
             treePositions := treePositions (processHandTracking_p0 e inp st) @ new,
             seed := sd, canvas := canvas st @ ink\<rparr>"
  using draw_p0_effect [of e inp st] by blast

text \<open>
  Claim C5, as the source has it. The frame callback is the hand tracking followed by the
  rendering with its particle loop. The particle loop changes \<^verbatim>\<open>parts\<close>, appends to
  \<^verbatim>\<open>treePositions\<close>, advances the random generator and, in \<^verbatim>\<open>GenerativeTree.tsx\<close>, paints
  on the persistent \<^verbatim>\<open>treeLayer\<close>, and nothing else; the rendering around it repaints the
  main canvas. In \<^verbatim>\<open>part_000\<close> the loop paints on the main canvas, which is never cleared.
  The hand tracking takes out of \<^verbatim>\<open>treePositions\<close> exactly the positions of the flowers it
  appends to \<^verbatim>\<open>parts\<close>, and it appends nothing but flowers. When it runs (landmarker and
  video ready, and a new video time), the callback stores that video time and, unless the
  detection throws, rewrites the interaction state: with a hand, the previous tip position
  becomes the current one, the wand moves towards it and the still-frame counter is
  incremented or reset; without a hand, all three are reset. \<^verbatim>\<open>part_000\<close> has the previous
  hand position as its only interaction state, treated alike.
\<close>

theorem frame_mutations:
  "(\<exists>ps new sd ink. fst (draw_parts e (length (parts st)) (st, [], []))
       = st\<lparr>parts := ps, treePositions := treePositions st @ new, seed := sd,
             treeLayer := treeLayer st @ ink\<rparr>)
   \<and> (\<exists>ps new sd ink cv. draw e inp st
         = (processHandTracking e inp st)
             \<lparr>parts := ps,
              treePositions := treePositions (processHandTracking e inp st) @ new,
              seed := sd, treeLayer := treeLayer st @ ink, canvas := cv\<rparr>)
   \<and> mset (treePositions st)
       = mset (treePositions (processHandTracking e inp st))
         + mset (map pos (drop (length (parts st)) (parts (processHandTracking e inp st))))
   \<and> length (parts st) \<le> length (parts (processHandTracking e inp st))
   \<and> filter (\<lambda>f. tag f \<noteq> FLOWER)
        (drop (length (parts st)) (parts (processHandTracking e inp st))) = []
   \<and> lastVideoTime (draw e inp st)
       = (if trackingReady inp \<and> currentTime inp \<noteq> lastVideoTime st
          then currentTime inp else lastVideoTime st)
   \<and> prevIndexPos (draw e inp st)
       = (if trackingReady inp \<and> currentTime inp \<noteq> lastVideoTime st
          then (case detectForVideo inp of
                  None \<Rightarrow> prevIndexPos st
                | Some [] \<Rightarrow> None
                | Some (h # hs) \<Rightarrow> Some ((1 - fst (h 8)) * width e, snd (h 8) * height e))
          else prevIndexPos st)
   \<and> wandPos (draw e inp st)
       = (if trackingReady inp \<and> currentTime inp \<noteq> lastVideoTime st
          then (case detectForVideo inp of
                  None \<Rightarrow> wandPos st
                | Some [] \<Rightarrow> None
                | Some (h # hs) \<Rightarrow>
                    (case wandPos st of
                       None \<Rightarrow> Some ((1 - fst (h 8)) * width e, snd (h 8) * height e)
                     | Some w \<Rightarrow>
                         Some (vector_lerp w ((1 - fst (h 8)) * width e, snd (h 8) * height e) 0.2)))
          else wandPos st)
   \<and> fingerStillFrames (draw e inp st)
       = (if trackingReady inp \<and> currentTime inp \<noteq> lastVideoTime st
          then (case detectForVideo inp of
                  None \<Rightarrow> fingerStillFrames st
                | Some [] \<Rightarrow> 0
                | Some (h # hs) \<Rightarrow> (if velocity_of e h st < 3 then fingerStillFrames st + 1 else 0))
          else fingerStillFrames st)
   \<and> (\<exists>ps new sd ink. draw_parts_p0 e (length (parts sq)) sq
       = sq\<lparr>parts := ps, treePositions := treePositions sq @ new, seed := sd,
             canvas := canvas sq @ ink\<rparr>)
   \<and> (\<exists>ps new sd ink. draw_p0 e inp sq
         = (processHandTracking_p0 e inp sq)
             \<lparr>parts := ps,
              treePositions := treePositions (processHandTracking_p0 e inp sq) @ new,
              seed := sd, canvas := canvas sq @ ink\<rparr>)
   \<and> mset (treePositions sq)
       = mset (treePositions (processHandTracking_p0 e inp sq))
         + mset (map pos (drop (length (parts sq)) (parts (processHandTracking_p0 e inp sq))))
   \<and> take (length (parts sq)) (parts (processHandTracking_p0 e inp sq)) = parts sq
   \<and> filter (\<lambda>f. tag f \<noteq> FLOWER)
        (drop (length (parts sq)) (parts (processHandTracking_p0 e inp sq))) = []
   \<and> lastVideoTime (draw_p0 e inp sq)
       = (if trackingReady inp \<and> currentTime inp \<noteq> lastVideoTime sq
          then currentTime inp else lastVideoTime sq)
   \<and> prevHandPos (draw_p0 e inp sq)
       = (if trackingReady inp \<and> currentTime inp \<noteq> lastVideoTime sq
          then (case detectForVideo inp of
                  None \<Rightarrow> prevHandPos sq
                | Some [] \<Rightarrow> None
                | Some (h # hs) \<Rightarrow> Some ((1 - fst (h 8)) * width e, snd (h 8) * height e))
          else prevHandPos sq)"
  by (intro conjI draw_parts_frame draw_frame processHandTracking_blooms draw_interaction
      draw_parts_p0_frame draw_p0_frame processHandTracking_p0_blooms draw_p0_interaction)

text \<open>
  Claim C5 as stated fails: in one frame with a moving hand near a recorded position the
  callback also takes that entry out of \<^verbatim>\<open>treePositions\<close>, replaces the previous tip
  position and stores the video time.
\<close>

theorem frame_mutates_more_than_parts:
  "treePositions sketch_bare = [(390, 300)]
   \<and> treePositions (draw env0 frame_flat sketch_bare) = []
   \<and> prevIndexPos sketch_bare = Some (390, 300)
   \<and> prevIndexPos (draw env0 frame_flat sketch_bare) = Some (400, 300)
   \<and> lastVideoTime sketch_bare = 0
   \<and> lastVideoTime (draw env0 frame_flat sketch_bare) = 1
   \<and> treePositions sketch_bare_p0 = [(390, 300)]
   \<and> treePositions (draw_p0 env0 frame_flat sketch_bare_p0) = []
   \<and> prevHandPos sketch_bare_p0 = Some (390, 300)
   \<and> prevHandPos (draw_p0 env0 frame_flat sketch_bare_p0) = Some (400, 300)"
proof -
  have a: "treePositions (draw env0 frame_flat sketch_bare) = []"
    by (simp add: draw_def processHandTracking_def handleHandInteraction_def Let_def
        hand_flat_def sketch_bare_def env0_def frame_flat_def velocity_of_def isPointing_def
        p_dist_horizontal paint_def probe_steps_def paint_probe_def probe_def near_def
        p_lerp_def spawnFlower_def splice_def split_beta new_Particle_fields
        handScreenSizeRatio_of_def draw_step.simps update_on_flower update_flower_keeps
        display_def drawWand_def)
  have b: "treePositions (draw_p0 env0 frame_flat sketch_bare_p0) = []"
    by (simp add: draw_p0_def processHandTracking_p0_def handleHandInteraction_p0_def Let_def
        hand_flat_def sketch_bare_p0_def env0_def frame_flat_def velocity_p0_def
        p_dist_horizontal bloomsNeeded_p0_def spawnFlower_p0_def splice_def split_beta
        new_Particle_p0_fields draw_step_p0_def update_p0_keeps_flower update_p0_flower_step
        update_p0_on_flower display_p0_def)
  have c: "prevIndexPos (draw env0 frame_flat sketch_bare) = Some (400, 300)"
    "lastVideoTime (draw env0 frame_flat sketch_bare) = 1"
    "prevHandPos (draw_p0 env0 frame_flat sketch_bare_p0) = Some (400, 300)"
    by (simp_all add: draw_interaction draw_p0_interaction frame_flat_def sketch_bare_def
        sketch_bare_p0_def hand_flat_def env0_def)
  show ?thesis using a b c by (simp add: sketch_bare_def sketch_bare_p0_def)
qed

end
